theory Spec2Isabelle
  imports Main "HOL-Library.AList"
begin

section \<open>Python values used by the program\<close>

text \<open>
  Exceptions are values. Only the classes that the program raises, catches or lets
  through are distinguished; \<open>ClientError\<close> carries the \<open>Error.Code\<close> entry of its
  response (\<open>None\<close> when the response has no such entry), and \<open>OtherError\<close> stands for
  any exception of another class (a network fault, an \<open>OSError\<close> of the file system).
  \<open>NotADirectoryError\<close> is never raised by the program; the constructor exists so that
  the class can be named.
\<close>

datatype exn =
    ValueError string
  | RuntimeError string
  | NotADirectoryError string
  | NoCredentialsError string
  | ProfileNotFound string
  | ClientError "string option"
  | OtherError string

text \<open>The message \<open>str(e)\<close> of a botocore credential exception is what it carries.\<close>

fun is_NotADirectoryError :: "exn \<Rightarrow> bool" where
  "is_NotADirectoryError (NotADirectoryError m) = True"
| "is_NotADirectoryError e = False"

text \<open>The values stored in the action and summary dictionaries.\<close>

datatype jval = JStr string | JBool bool | JInt int

type_synonym dict = "(string \<times> jval) list"

text \<open>\<open>s.strip(c)\<close> for a single character \<open>c\<close>, and \<open>s.startswith(p)\<close>.\<close>

definition strip :: "char \<Rightarrow> string \<Rightarrow> string" where
  "strip c s = rev (dropWhile (\<lambda>x. x = c) (rev (dropWhile (\<lambda>x. x = c) s)))"

definition startswith :: "string \<Rightarrow> string \<Rightarrow> bool" where
  "startswith s p = (take (length p) s = p)"

text \<open>
  \<open>str(n)\<close> of a Python integer: decimal digits, most significant first, with a
  leading minus sign for a negative number.
\<close>

definition digit_char :: "nat \<Rightarrow> char" where
  "digit_char d = ''0123456789'' ! d"

fun str_nat :: "nat \<Rightarrow> string" where
  "str_nat n = (if n < 10 then [digit_char n] else str_nat (n div 10) @ [digit_char (n mod 10)])"

declare str_nat.simps [simp del]

definition str_int :: "int \<Rightarrow> string" where
  "str_int i = (if i < 0 then CHR ''-'' # str_nat (nat (- i)) else str_nat (nat i))"

text \<open>
  Characters are the code points below 256. \<open>str.isdigit()\<close> holds of a non-empty
  string all of whose characters have the Unicode digit property: below 256 these are
  the decimal digits \<open>0\<close> to \<open>9\<close> and the superscript digits U+00B2, U+00B3 and U+00B9.
\<close>

definition is_decimal :: "char \<Rightarrow> bool" where
  "is_decimal c = (c \<in> set ''0123456789'')"

definition is_digit_char :: "char \<Rightarrow> bool" where
  "is_digit_char c = (is_decimal c \<or> c \<in> {CHR 0xB2, CHR 0xB3, CHR 0xB9})"

definition isdigit :: "string \<Rightarrow> bool" where
  "isdigit s = (s \<noteq> [] \<and> list_all is_digit_char s)"

definition digit_val :: "char \<Rightarrow> int" where
  "digit_val c = int (of_char c) - 48"

text \<open>
  \<open>int(s)\<close> for a string that satisfies \<open>isdigit\<close> (the only place the program calls
  it): such a string has no sign, blank or underscore, so \<open>int\<close> returns its decimal
  value when every character is a decimal digit and raises \<open>ValueError\<close> otherwise (a
  superscript digit is not a decimal digit).
\<close>

definition int_of_str :: "string \<Rightarrow> exn + int" where
  "int_of_str s =
     (if s \<noteq> [] \<and> list_all is_decimal s
      then Inr (foldl (\<lambda>acc c. acc * 10 + digit_val c) 0 s)
      else Inl (ValueError (''invalid literal for int() with base 10: '' @ [CHR 0x27] @ s @ [CHR 0x27])))"

section \<open>The remote store behind the boto3 client\<close>

text \<open>
  The response of \<open>head_object\<close>, read by the program with \<open>r.get\<close>: each entry may be
  missing. An object of the store is kept as the response a head lookup gives for it.
\<close>

record head_response =
  ETag :: "string option"
  ContentLength :: "int option"
  Metadata :: "(string \<times> string) list option"

text \<open>The client calls the program issues, with their arguments.\<close>

datatype call =
    GetCallerIdentity
  | HeadObject string string
  | ListObjectsV2 string string
  | UploadFile string string string "(string \<times> string) list"
  | DeleteObject string string

fun is_mutation :: "call \<Rightarrow> bool" where
  "is_mutation (UploadFile p b k m) = True"
| "is_mutation (DeleteObject b k) = True"
| "is_mutation c = False"

text \<open>
  The store is the external collaborator: \<open>objects\<close> maps (bucket, key) to the stored
  object, \<open>faults\<close> says which calls the service answers with an exception (permission
  denied, throttling, a network fault), \<open>calls\<close> logs every call issued, and
  \<open>local_etag\<close>, \<open>local_length\<close> give the entity tag and length of the content of a
  local file as an upload reads it.
\<close>

record s3 =
  objects :: "((string \<times> string) \<times> head_response) list"
  faults :: "call \<Rightarrow> exn option"
  calls :: "call list"
  local_etag :: "string \<Rightarrow> string"
  local_length :: "string \<Rightarrow> int"

definition issue :: "call \<Rightarrow> s3 \<Rightarrow> s3" where
  "issue c s = s\<lparr>calls := calls s @ [c]\<rparr>"

text \<open>\<open>client.head_object\<close>: a missing key is answered with a \<open>ClientError\<close> of code 404.\<close>

definition head_object :: "s3 \<Rightarrow> string \<Rightarrow> string \<Rightarrow> (exn + head_response) \<times> s3" where
  "head_object s bucket key =
     (let s' = issue (HeadObject bucket key) s in
      case faults s (HeadObject bucket key) of
        Some e \<Rightarrow> (Inl e, s')
      | None \<Rightarrow>
          (case map_of (objects s) (bucket, key) of
             None \<Rightarrow> (Inl (ClientError (Some ''404'')), s')
           | Some r \<Rightarrow> (Inr r, s')))"

text \<open>
  The pages of \<open>list_objects_v2\<close>: the keys of the bucket that start with the prefix, at
  most \<open>MaxKeys\<close> a page; a page is the list of the \<open>Key\<close> entries of its \<open>Contents\<close>, and
  \<open>None\<close> when it has no \<open>Contents\<close> (the single page of an empty listing).
\<close>

definition MaxKeys :: nat where
  "MaxKeys = 1000"

function chunk :: "nat \<Rightarrow> 'a list \<Rightarrow> 'a list list" where
  "chunk n xs = (if xs = [] then [] else take (Suc n) xs # chunk n (drop (Suc n) xs))"
  by pat_completeness auto
termination
  by (relation "measure (\<lambda>(n, xs). length xs)") auto

declare chunk.simps [simp del]

definition keys_under :: "s3 \<Rightarrow> string \<Rightarrow> string \<Rightarrow> string list" where
  "keys_under s bucket prefix =
     map (\<lambda>bk. snd (fst bk))
       (filter (\<lambda>bk. fst (fst bk) = bucket \<and> startswith (snd (fst bk)) prefix) (objects s))"

definition paginate :: "s3 \<Rightarrow> string \<Rightarrow> string \<Rightarrow> (exn + string list option list) \<times> s3" where
  "paginate s bucket prefix =
     (let s' = issue (ListObjectsV2 bucket prefix) s in
      case faults s (ListObjectsV2 bucket prefix) of
        Some e \<Rightarrow> (Inl e, s')
      | None \<Rightarrow>
          (let ks = keys_under s bucket prefix in
           if ks = [] then (Inr [None], s')
           else (Inr (map Some (chunk (MaxKeys - 1) ks)), s')))"

text \<open>\<open>client.upload_file\<close> and \<open>client.delete_object\<close>: the two calls that change the store.\<close>

definition client_upload_file ::
  "s3 \<Rightarrow> string \<Rightarrow> string \<Rightarrow> string \<Rightarrow> (string \<times> string) list \<Rightarrow> (exn + unit) \<times> s3" where
  "client_upload_file s local_path bucket key meta =
     (let c = UploadFile local_path bucket key meta; s' = issue c s in
      case faults s c of
        Some e \<Rightarrow> (Inl e, s')
      | None \<Rightarrow>
          (Inr (),
           s'\<lparr>objects := AList.update (bucket, key)
                 \<lparr>ETag = Some (local_etag s local_path),
                  ContentLength = Some (local_length s local_path),
                  Metadata = Some meta\<rparr> (objects s)\<rparr>))"

definition client_delete_object :: "s3 \<Rightarrow> string \<Rightarrow> string \<Rightarrow> (exn + unit) \<times> s3" where
  "client_delete_object s bucket key =
     (let c = DeleteObject bucket key; s' = issue c s in
      case faults s c of
        Some e \<Rightarrow> (Inl e, s')
      | None \<Rightarrow> (Inr (), s'\<lparr>objects := AList.delete (bucket, key) (objects s)\<rparr>))"

definition get_caller_identity :: "s3 \<Rightarrow> (exn + unit) \<times> s3" where
  "get_caller_identity s =
     (let s' = issue GetCallerIdentity s in
      case faults s GetCallerIdentity of Some e \<Rightarrow> (Inl e, s') | None \<Rightarrow> (Inr (), s'))"

section \<open>s3.py\<close>

definition head_object_etag_size_mtime ::
  "s3 \<Rightarrow> string \<Rightarrow> string \<Rightarrow> (exn + (string \<times> int \<times> int option) option) \<times> s3" where
  "head_object_etag_size_mtime s bucket key =
     (case head_object s bucket key of
        (Inr r, s') \<Rightarrow>
          (let etag = strip (CHR 0x22) (case ETag r of None \<Rightarrow> [] | Some e \<Rightarrow> e);
               size = (case ContentLength r of None \<Rightarrow> 0 | Some n \<Rightarrow> n);
               meta = (case Metadata r of None \<Rightarrow> [] | Some m \<Rightarrow> m)
           in case map_of meta ''mtime'' of
                None \<Rightarrow> (Inr (Some (etag, size, None)), s')
              | Some mtime \<Rightarrow>
                  if mtime \<noteq> [] \<and> isdigit mtime
                  then (case int_of_str mtime of
                          Inl e \<Rightarrow> (Inl e, s')
                        | Inr n \<Rightarrow> (Inr (Some (etag, size, Some n)), s'))
                  else (Inr (Some (etag, size, None)), s'))
      | (Inl (ClientError c), s') \<Rightarrow>
          (let code = (case c of None \<Rightarrow> [] | Some x \<Rightarrow> x) in
           if code \<in> set [''404'', ''NoSuchKey'', ''NotFound''] then (Inr None, s')
           else (Inl (ClientError c), s'))
      | (Inl e, s') \<Rightarrow> (Inl e, s'))"

definition list_objects_keys :: "s3 \<Rightarrow> string \<Rightarrow> string \<Rightarrow> (exn + string list) \<times> s3" where
  "list_objects_keys s bucket prefix =
     (case paginate s bucket prefix of
        (Inl e, s') \<Rightarrow> (Inl e, s')
      | (Inr pages, s') \<Rightarrow>
          (Inr (concat (map (\<lambda>page. case page of None \<Rightarrow> [] | Some c \<Rightarrow> c) pages)), s'))"

definition upload_file ::
  "s3 \<Rightarrow> string \<Rightarrow> string \<Rightarrow> string \<Rightarrow> int \<Rightarrow> bool \<Rightarrow> (exn + dict) \<times> s3" where
  "upload_file s bucket key local_path mtime_epoch dry_run =
     (if dry_run
      then (Inr [(''action'', JStr ''upload''), (''bucket'', JStr bucket), (''key'', JStr key),
                 (''local'', JStr local_path), (''dry_run'', JBool True)], s)
      else (let extra = [(''mtime'', str_int mtime_epoch)] in
            case client_upload_file s local_path bucket key extra of
              (Inl e, s') \<Rightarrow> (Inl e, s')
            | (Inr u, s') \<Rightarrow>
                (Inr [(''action'', JStr ''upload''), (''bucket'', JStr bucket), (''key'', JStr key),
                      (''local'', JStr local_path), (''dry_run'', JBool False)], s')))"

definition delete_object :: "s3 \<Rightarrow> string \<Rightarrow> string \<Rightarrow> bool \<Rightarrow> (exn + dict) \<times> s3" where
  "delete_object s bucket key dry_run =
     (if dry_run
      then (Inr [(''action'', JStr ''delete''), (''bucket'', JStr bucket), (''key'', JStr key),
                 (''dry_run'', JBool True)], s)
      else (case client_delete_object s bucket key of
              (Inl e, s') \<Rightarrow> (Inl e, s')
            | (Inr u, s') \<Rightarrow>
                (Inr [(''action'', JStr ''delete''), (''bucket'', JStr bucket), (''key'', JStr key),
                      (''dry_run'', JBool False)], s')))"

definition validate_creds :: "s3 \<Rightarrow> string option \<Rightarrow> (exn + unit) \<times> s3" where
  "validate_creds s profile =
     (case get_caller_identity s of
        (Inl (NoCredentialsError m), s') \<Rightarrow>
          (Inl (RuntimeError (''AWS credentials/profile error: '' @ m)), s')
      | (Inl (ProfileNotFound m), s') \<Rightarrow>
          (Inl (RuntimeError (''AWS credentials/profile error: '' @ m)), s')
      | (Inl e, s') \<Rightarrow> (Inl e, s')
      | (Inr u, s') \<Rightarrow> (Inr (), s'))"

section \<open>utils.py\<close>

record FileItem =
  path :: string
  rel :: string
  size_f :: int
  mtime :: int

text \<open>
  The local tree as the scan reads it: \<open>rglob\<close> is the sequence \<open>root.rglob("*")\<close>
  yields, each entry with its absolute path, its path relative to the root in posix
  form, whether it is a directory, and \<open>st_size\<close> and \<open>int(st_mtime)\<close> of its \<open>stat\<close>.
  \<open>root_path\<close> is the resolved \<open>local_root\<close>.
\<close>

record entry =
  p_path :: string
  p_rel :: string
  p_is_dir :: bool
  st_size :: int
  st_mtime :: int

record local_fs =
  root_path :: string
  root_exists :: bool
  root_is_dir :: bool
  rglob :: "entry list"

text \<open>
  \<open>fnmatch.fnmatch\<close> belongs to the Python library, not to the program: the functions
  that use it take the matcher \<open>fm\<close> as an argument (name first, pattern second).
\<close>

fun is_excluded :: "(string \<Rightarrow> string \<Rightarrow> bool) \<Rightarrow> string \<Rightarrow> string list \<Rightarrow> bool" where
  "is_excluded fm rel_posix [] = False"
| "is_excluded fm rel_posix (pattern # excludes) =
     (if fm rel_posix pattern then True else is_excluded fm rel_posix excludes)"

fun iter_entries :: "(string \<Rightarrow> string \<Rightarrow> bool) \<Rightarrow> entry list \<Rightarrow> string list \<Rightarrow> FileItem list" where
  "iter_entries fm [] excludes = []"
| "iter_entries fm (p # ps) excludes =
     (if p_is_dir p then iter_entries fm ps excludes
      else if is_excluded fm (p_rel p) excludes then iter_entries fm ps excludes
      else \<lparr>path = p_path p, rel = p_rel p, size_f = st_size p, mtime = st_mtime p\<rparr>
             # iter_entries fm ps excludes)"

definition iter_files :: "(string \<Rightarrow> string \<Rightarrow> bool) \<Rightarrow> local_fs \<Rightarrow> string list \<Rightarrow> FileItem list" where
  "iter_files fm root excludes = iter_entries fm (rglob root) excludes"

definition join_s3_key :: "string \<Rightarrow> string \<Rightarrow> string" where
  "join_s3_key prefix rel_posix =
     (let prefix' = strip (CHR ''/'') prefix in
      if prefix' = [] then rel_posix else prefix' @ ''/'' @ rel_posix)"

text \<open>
  A matcher for the examples: \<open>fnmatch\<close> on a POSIX system for a pattern without a
  bracket expression, where \<open>*\<close> matches any run of characters (a slash too), \<open>?\<close> any
  one character and every other character itself.
\<close>

fun glob_match :: "string \<Rightarrow> string \<Rightarrow> bool" where
  "glob_match [] [] = True"
| "glob_match (c # cs) [] = False"
| "glob_match [] (q # qs) = (q = CHR ''*'' \<and> glob_match [] qs)"
| "glob_match (c # cs) (q # qs) =
     (if q = CHR ''*'' then glob_match (c # cs) qs \<or> glob_match cs (q # qs)
      else (q = CHR ''?'' \<or> q = c) \<and> glob_match cs qs)"

section \<open>cli.py\<close>

definition EXIT_OK :: int where
  "EXIT_OK = 0"

definition EXIT_ERROR :: int where
  "EXIT_ERROR = 2"

text \<open>\<open>s.split(c, 1)\<close>: one part when \<open>c\<close> does not occur, else the parts around its first occurrence.\<close>

definition split1 :: "char \<Rightarrow> string \<Rightarrow> string list" where
  "split1 c s =
     (if c \<in> set s then [takeWhile (\<lambda>x. x \<noteq> c) s, tl (dropWhile (\<lambda>x. x \<noteq> c) s)] else [s])"

definition parse_s3_uri :: "string \<Rightarrow> exn + (string \<times> string)" where
  "parse_s3_uri uri =
     (if \<not> startswith uri ''s3://''
      then Inl (ValueError ''s3_uri must start with s3://bucket/prefix'')
      else (let rest = drop 5 uri;
                parts = split1 (CHR ''/'') rest;
                bucket = parts ! 0;
                prefix = (if length parts > 1 then parts ! 1 else []);
                prefix' = strip (CHR ''/'') prefix
            in if bucket = [] then Inl (ValueError ''Invalid s3_uri: missing bucket'')
               else Inr (bucket, prefix')))"

text \<open>
  The parsed arguments that reach the synchronisation (the region, the output format
  and the log level do not).
\<close>

record args =
  profile :: "string option"
  cmd :: string
  s3_uri :: string
  exclude :: "string list"
  dry_run :: bool
  delete :: bool
  strategy :: string

text \<open>The local variables of \<open>main\<close> that the two loops update.\<close>

record run_state =
  actions :: "dict list"
  uploaded :: nat
  skipped :: nat
  deleted :: nat
  local_key_set :: "string set"

definition init_state :: run_state where
  "init_state = \<lparr>actions = [], uploaded = 0, skipped = 0, deleted = 0, local_key_set = {}\<rparr>"

text \<open>Lines 77-78 and 91-92: upload (or simulate), append the action, count it.\<close>

definition append_upload ::
  "bool \<Rightarrow> string \<Rightarrow> string \<Rightarrow> FileItem \<Rightarrow> run_state \<Rightarrow> s3 \<Rightarrow> (exn + run_state) \<times> s3" where
  "append_upload dry bucket key f st s =
     (case upload_file s bucket key (path f) (mtime f) dry of
        (Inl e, s') \<Rightarrow> (Inl e, s')
      | (Inr a, s') \<Rightarrow> (Inr (st\<lparr>actions := actions st @ [a], uploaded := uploaded st + 1\<rparr>), s'))"

text \<open>The body of the loop over the local files (lines 72-94).\<close>

definition sync_file ::
  "args \<Rightarrow> string \<Rightarrow> string \<Rightarrow> FileItem \<Rightarrow> run_state \<Rightarrow> s3 \<Rightarrow> (exn + run_state) \<times> s3" where
  "sync_file a bucket prefix f st s =
     (let key = join_s3_key prefix (rel f);
          st1 = st\<lparr>local_key_set := insert key (local_key_set st)\<rparr>
      in case head_object_etag_size_mtime s bucket key of
           (Inl e, s1) \<Rightarrow> (Inl e, s1)
         | (Inr None, s1) \<Rightarrow> append_upload (dry_run a) bucket key f st1 s1
         | (Inr (Some (etag, r_size, r_mtime)), s1) \<Rightarrow>
             (let should_upload =
                    (if strategy a = ''size-only'' then r_size \<noteq> size_f f
                     else r_size \<noteq> size_f f \<or> r_mtime = None \<or> r_mtime \<noteq> Some (mtime f))
              in if should_upload then append_upload (dry_run a) bucket key f st1 s1
                 else (Inr (st1\<lparr>skipped := skipped st1 + 1\<rparr>), s1)))"

fun upload_loop ::
  "args \<Rightarrow> string \<Rightarrow> string \<Rightarrow> FileItem list \<Rightarrow> run_state \<Rightarrow> s3 \<Rightarrow> (exn + run_state) \<times> s3" where
  "upload_loop a bucket prefix [] st s = (Inr st, s)"
| "upload_loop a bucket prefix (f # fs) st s =
     (case sync_file a bucket prefix f st s of
        (Inl e, s') \<Rightarrow> (Inl e, s')
      | (Inr st', s') \<Rightarrow> upload_loop a bucket prefix fs st' s')"

text \<open>The loop over the listed remote keys (lines 101-105).\<close>

fun delete_loop ::
  "args \<Rightarrow> string \<Rightarrow> string list \<Rightarrow> run_state \<Rightarrow> s3 \<Rightarrow> (exn + run_state) \<times> s3" where
  "delete_loop a bucket [] st s = (Inr st, s)"
| "delete_loop a bucket (k # ks) st s =
     (if k \<notin> local_key_set st
      then (case delete_object s bucket k (dry_run a) of
              (Inl e, s') \<Rightarrow> (Inl e, s')
            | (Inr act, s') \<Rightarrow>
                delete_loop a bucket ks
                  (st\<lparr>actions := actions st @ [act], deleted := deleted st + 1\<rparr>) s')
      else delete_loop a bucket ks st s)"

definition list_prefix_of :: "string \<Rightarrow> string" where
  "list_prefix_of prefix = (if prefix \<noteq> [] then prefix @ ''/'' else [])"

text \<open>The deletion phase (lines 96-105).\<close>

definition delete_phase ::
  "args \<Rightarrow> string \<Rightarrow> string \<Rightarrow> run_state \<Rightarrow> s3 \<Rightarrow> (exn + run_state) \<times> s3" where
  "delete_phase a bucket prefix st s =
     (if delete a
      then (case list_objects_keys s bucket (list_prefix_of prefix) of
              (Inl e, s') \<Rightarrow> (Inl e, s')
            | (Inr remote_keys, s') \<Rightarrow> delete_loop a bucket remote_keys st s')
      else (Inr st, s))"

definition summary :: "args \<Rightarrow> local_fs \<Rightarrow> string \<Rightarrow> string \<Rightarrow> run_state \<Rightarrow> dict" where
  "summary a root bucket prefix st =
     [(''cmd'', JStr ''sync''), (''local_dir'', JStr (root_path root)), (''bucket'', JStr bucket),
      (''prefix'', JStr prefix), (''dry_run'', JBool (dry_run a)),
      (''uploaded'', JInt (int (uploaded st))), (''skipped'', JInt (int (skipped st))),
      (''deleted'', JInt (int (deleted st))),
      (''total_actions'', JInt (int (length (actions st))))]"

text \<open>
  The \<open>sync\<close> branch of \<open>main\<close> (lines 58-117): the final loop variables and the
  summary, or the exception that left the branch.
\<close>

definition sync ::
  "(string \<Rightarrow> string \<Rightarrow> bool) \<Rightarrow> args \<Rightarrow> local_fs \<Rightarrow> s3 \<Rightarrow> (exn + run_state \<times> dict) \<times> s3" where
  "sync fm a root s =
     (if \<not> root_exists root \<or> \<not> root_is_dir root
      then (Inl (ValueError (''local_dir not found or not a directory: '' @ root_path root)), s)
      else (case parse_s3_uri (s3_uri a) of
              Inl e \<Rightarrow> (Inl e, s)
            | Inr (bucket, prefix) \<Rightarrow>
                (case upload_loop a bucket prefix (iter_files fm root (exclude a)) init_state s of
                   (Inl e, s1) \<Rightarrow> (Inl e, s1)
                 | (Inr st1, s1) \<Rightarrow>
                     (case delete_phase a bucket prefix st1 s1 of
                        (Inl e, s2) \<Rightarrow> (Inl e, s2)
                      | (Inr st2, s2) \<Rightarrow> (Inr (st2, summary a root bucket prefix st2), s2)))))"

text \<open>
  \<open>main\<close>: the exit code, and the report (summary and actions) when the run succeeded.
  Every exception of the \<open>try\<close> block is logged and turned into \<open>EXIT_ERROR\<close>.
\<close>

definition main ::
  "(string \<Rightarrow> string \<Rightarrow> bool) \<Rightarrow> args \<Rightarrow> local_fs \<Rightarrow> s3 \<Rightarrow> (int \<times> (dict \<times> dict list) option) \<times> s3" where
  "main fm a root s =
     (case validate_creds s (profile a) of
        (Inl e, s0) \<Rightarrow> ((EXIT_ERROR, None), s0)
      | (Inr u, s0) \<Rightarrow>
          if cmd a = ''sync''
          then (case sync fm a root s0 of
                  (Inl e, s1) \<Rightarrow> ((EXIT_ERROR, None), s1)
                | (Inr (st, summ), s1) \<Rightarrow> ((EXIT_OK, Some (summ, actions st)), s1))
          else ((EXIT_ERROR, None), s0))"

section \<open>Reading a run\<close>

text \<open>The kind and the key of an action record, and the keys of the actions of one kind.\<close>

definition action_kind :: "dict \<Rightarrow> string" where
  "action_kind act = (case map_of act ''action'' of Some (JStr k) \<Rightarrow> k | _ \<Rightarrow> [])"

definition action_key :: "dict \<Rightarrow> string" where
  "action_key act = (case map_of act ''key'' of Some (JStr k) \<Rightarrow> k | _ \<Rightarrow> [])"

definition keys_of :: "string \<Rightarrow> dict list \<Rightarrow> string list" where
  "keys_of kind acts = map action_key (filter (\<lambda>act. action_kind act = kind) acts)"

text \<open>The records \<open>upload_file\<close> and \<open>delete_object\<close> return.\<close>

definition upload_action :: "string \<Rightarrow> string \<Rightarrow> string \<Rightarrow> bool \<Rightarrow> dict" where
  "upload_action bucket key local_path dry =
     [(''action'', JStr ''upload''), (''bucket'', JStr bucket), (''key'', JStr key),
      (''local'', JStr local_path), (''dry_run'', JBool dry)]"

definition delete_action :: "string \<Rightarrow> string \<Rightarrow> bool \<Rightarrow> dict" where
  "delete_action bucket key dry =
     [(''action'', JStr ''delete''), (''bucket'', JStr bucket), (''key'', JStr key),
      (''dry_run'', JBool dry)]"

text \<open>The calls of a log that change the store.\<close>

definition mutations :: "s3 \<Rightarrow> call list" where
  "mutations s = filter is_mutation (calls s)"



section \<open>The example scenario of the specification\<close>

text \<open>
  A root with \<open>a.txt\<close> (100 bytes, mtime 1000), \<open>b.log\<close> (50 bytes) and a directory; a
  bucket with \<open>a.txt\<close> (size 100, stored mtime 1000) and \<open>old.txt\<close>; the exclusion
  pattern \<open>*.log\<close>, the size-mtime strategy, deletion enabled, a live run.
\<close>

definition ex_root :: local_fs where
  "ex_root =
     \<lparr>root_path = ''/data'', root_exists = True, root_is_dir = True,
      rglob =
        [\<lparr>p_path = ''/data/a.txt'', p_rel = ''a.txt'', p_is_dir = False, st_size = 100, st_mtime = 1000\<rparr>,
         \<lparr>p_path = ''/data/sub'', p_rel = ''sub'', p_is_dir = True, st_size = 0, st_mtime = 900\<rparr>,
         \<lparr>p_path = ''/data/b.log'', p_rel = ''b.log'', p_is_dir = False, st_size = 50, st_mtime = 2000\<rparr>]\<rparr>"

definition ex_store :: s3 where
  "ex_store =
     \<lparr>objects =
        [((''bkt'', ''a.txt''),
          \<lparr>ETag = Some ''e1'', ContentLength = Some 100, Metadata = Some [(''mtime'', ''1000'')]\<rparr>),
         ((''bkt'', ''old.txt''),
          \<lparr>ETag = Some ''e2'', ContentLength = Some 7, Metadata = None\<rparr>)],
      faults = (\<lambda>c. None), calls = [],
      local_etag = (\<lambda>p. ''e0''), local_length = (\<lambda>p. 100)\<rparr>"

definition ex_args :: args where
  "ex_args =
     \<lparr>profile = None, cmd = ''sync'', s3_uri = ''s3://bkt'', exclude = [''*.log''],
      dry_run = False, delete = True, strategy = ''size-mtime''\<rparr>"



text \<open>
  The bucket with a stale \<open>a.txt\<close> (stored mtime 999) and \<open>old.txt\<close>, and a bucket whose
  keys lie under the prefix \<open>backup\<close>, under the sibling prefix \<open>backup2\<close>, and in
  another bucket.
\<close>

definition ex_store_stale :: s3 where
  "ex_store_stale = ex_store\<lparr>objects :=
       [((''bkt'', ''a.txt''),
         \<lparr>ETag = Some ''e1'', ContentLength = Some 100, Metadata = Some [(''mtime'', ''999'')]\<rparr>),
        ((''bkt'', ''old.txt''),
         \<lparr>ETag = Some ''e2'', ContentLength = Some 7, Metadata = None\<rparr>)]\<rparr>"

definition ex_store_prefix :: s3 where
  "ex_store_prefix = ex_store\<lparr>objects :=
       [((''bkt'', ''backup/a.txt''), \<lparr>ETag = None, ContentLength = Some 100, Metadata = None\<rparr>),
        ((''bkt'', ''backup2/x.txt''), \<lparr>ETag = None, ContentLength = Some 1, Metadata = None\<rparr>),
        ((''bkt'', ''backup/old.txt''), \<lparr>ETag = None, ContentLength = Some 7, Metadata = None\<rparr>),
        ((''other'', ''backup/z.txt''), \<lparr>ETag = None, ContentLength = Some 2, Metadata = None\<rparr>)]\<rparr>"

text \<open>The bucket with \<open>a.txt\<close> up to date and a remote \<open>b.log\<close>, the counterpart of the excluded file.\<close>

definition ex_store_log :: s3 where
  "ex_store_log = ex_store\<lparr>objects :=
       [((''bkt'', ''a.txt''),
         \<lparr>ETag = Some ''e1'', ContentLength = Some 100, Metadata = Some [(''mtime'', ''1000'')]\<rparr>),
        ((''bkt'', ''b.log''),
         \<lparr>ETag = Some ''e3'', ContentLength = Some 50, Metadata = Some [(''mtime'', ''2000'')]\<rparr>)]\<rparr>"


section \<open>Decimal strings\<close>









section \<open>Effects of the client functions\<close>

lemma concat_chunk: "concat (chunk n xs) = xs"
proof (induction n xs rule: chunk.induct)
  case (1 n xs)
  show ?case
  proof (cases "xs = []")
    case True
    then show ?thesis by (subst chunk.simps) simp
  next
    case False
    with 1 show ?thesis by (subst chunk.simps) simp
  qed
qed

lemma list_objects_keys_result:
  "list_objects_keys s bucket prefix = (Inr ks, s') \<Longrightarrow>
     ks = keys_under s bucket prefix \<and> s' = issue (ListObjectsV2 bucket prefix) s"
  by (auto simp: list_objects_keys_def paginate_def Let_def concat_chunk comp_def
      split: option.splits if_splits prod.splits sum.splits)

lemma list_objects_keys_error:
  "list_objects_keys s bucket prefix = (Inl e, s') \<Longrightarrow>
     faults s (ListObjectsV2 bucket prefix) = Some e \<and> s' = issue (ListObjectsV2 bucket prefix) s"
  by (auto simp: list_objects_keys_def paginate_def Let_def
      split: option.splits if_splits prod.splits sum.splits)

lemma head_object_state: "snd (head_object s bucket key) = issue (HeadObject bucket key) s"
  by (simp add: head_object_def Let_def split: option.splits)

lemma head_state: "snd (head_object_etag_size_mtime s bucket key) = issue (HeadObject bucket key) s"
proof -
  obtain r s' where h: "head_object s bucket key = (r, s')" by (cases "head_object s bucket key")
  then have s': "s' = issue (HeadObject bucket key) s"
    using head_object_state [of s bucket key] by simp
  show ?thesis
  proof (cases r)
    case (Inl e)
    with h s' show ?thesis
      by (cases e) (simp_all add: head_object_etag_size_mtime_def Let_def)
  next
    case (Inr x)
    with h s' show ?thesis
      by (simp add: head_object_etag_size_mtime_def Let_def split: option.splits sum.splits)
  qed
qed

lemma upload_file_dry: "upload_file s bucket key p m True = (Inr (upload_action bucket key p True), s)"
  by (simp add: upload_file_def upload_action_def)

lemma upload_file_result:
  "upload_file s bucket key p m dry = (Inr act, s') \<Longrightarrow> act = upload_action bucket key p dry"
  by (auto simp: upload_file_def upload_action_def Let_def split: if_splits prod.splits sum.splits)

lemma delete_object_dry: "delete_object s bucket key True = (Inr (delete_action bucket key True), s)"
  by (simp add: delete_object_def delete_action_def)

lemma delete_object_result:
  "delete_object s bucket key dry = (Inr act, s') \<Longrightarrow> act = delete_action bucket key dry"
  by (auto simp: delete_object_def delete_action_def Let_def split: if_splits prod.splits sum.splits)

lemma upload_file_faults: "faults (snd (upload_file s bucket key p m dry)) = faults s"
  by (auto simp: upload_file_def client_upload_file_def issue_def Let_def split: option.splits)

lemma delete_object_faults: "faults (snd (delete_object s bucket key dry)) = faults s"
  by (auto simp: delete_object_def client_delete_object_def issue_def Let_def split: option.splits)

lemma append_upload_faults: "faults (snd (append_upload dry bucket key f st s)) = faults s"
  using upload_file_faults [of s bucket key "path f" "mtime f" dry]
  by (auto simp: append_upload_def split: prod.splits sum.splits)

lemma sync_file_faults: "faults (snd (sync_file a bucket prefix f st s)) = faults s"
proof -
  have h: "faults (snd (head_object_etag_size_mtime s bucket (join_s3_key prefix (rel f)))) = faults s"
    by (simp add: head_state issue_def)
  show ?thesis
    using h
    by (auto simp: sync_file_def Let_def append_upload_faults split: prod.splits sum.splits option.splits)
qed



section \<open>The loop body\<close>




section \<open>The example scenario evaluated\<close>




lemma ex_join: "join_s3_key [] r = r"
  by (simp add: join_s3_key_def strip_def)






section \<open>Reads leave the store alone\<close>

lemma issue_frame:
  "objects (issue c s) = objects s" "faults (issue c s) = faults s"
  "\<not> is_mutation c \<Longrightarrow> mutations (issue c s) = mutations s"
  by (simp_all add: issue_def mutations_def)

lemma list_state:
  "snd (list_objects_keys s bucket prefix) = issue (ListObjectsV2 bucket prefix) s"
  by (simp add: list_objects_keys_def paginate_def Let_def split: option.splits)

lemma validate_creds_state: "snd (validate_creds s pr) = issue GetCallerIdentity s"
proof -
  have g: "snd (get_caller_identity s) = issue GetCallerIdentity s"
    by (simp add: get_caller_identity_def Let_def split: option.splits)
  obtain r s' where h: "get_caller_identity s = (r, s')" by (cases "get_caller_identity s")
  with g have s': "s' = issue GetCallerIdentity s" by simp
  show ?thesis
  proof (cases r)
    case (Inl e)
    with h s' show ?thesis by (cases e) (simp_all add: validate_creds_def)
  next
    case (Inr u)
    with h s' show ?thesis by (simp add: validate_creds_def)
  qed
qed

lemma append_upload_dry:
  "append_upload True bucket key f st s =
     (Inr (st\<lparr>actions := actions st @ [upload_action bucket key (path f) True],
              uploaded := uploaded st + 1\<rparr>), s)"
  by (simp add: append_upload_def upload_file_dry)

lemma sync_file_dry_frame:
  assumes "dry_run a"
  shows "objects (snd (sync_file a bucket prefix f st s)) = objects s \<and>
         mutations (snd (sync_file a bucket prefix f st s)) = mutations s"
proof -
  obtain r s1 where h: "head_object_etag_size_mtime s bucket (join_s3_key prefix (rel f)) = (r, s1)"
    by (cases "head_object_etag_size_mtime s bucket (join_s3_key prefix (rel f))")
  then have s1: "s1 = issue (HeadObject bucket (join_s3_key prefix (rel f))) s"
    using head_state [of s bucket "join_s3_key prefix (rel f)"] by simp
  have fr: "objects s1 = objects s \<and> mutations s1 = mutations s"
    unfolding s1 by (simp add: issue_frame)
  show ?thesis
    using h fr assms
    by (auto simp: sync_file_def Let_def append_upload_dry split: sum.splits option.splits)
qed

lemma upload_loop_dry_frame:
  assumes "dry_run a"
  shows "objects (snd (upload_loop a bucket prefix fs st s)) = objects s \<and>
         mutations (snd (upload_loop a bucket prefix fs st s)) = mutations s"
proof (induction fs arbitrary: st s)
  case Nil
  show ?case by simp
next
  case (Cons f fs)
  obtain r s1 where h: "sync_file a bucket prefix f st s = (r, s1)"
    by (cases "sync_file a bucket prefix f st s")
  then have fr: "objects s1 = objects s \<and> mutations s1 = mutations s"
    using sync_file_dry_frame [OF assms, of bucket prefix f st s] by simp
  show ?case
  proof (cases r)
    case (Inl e)
    with h fr show ?thesis by simp
  next
    case (Inr st')
    with h fr Cons.IH [of st' s1] show ?thesis by simp
  qed
qed

lemma delete_loop_dry:
  assumes "dry_run a"
  shows "snd (delete_loop a bucket ks st s) = s"
  using assms by (induction ks arbitrary: st) (simp_all add: delete_object_dry)

lemma delete_phase_dry_frame:
  assumes "dry_run a"
  shows "objects (snd (delete_phase a bucket prefix st s)) = objects s \<and>
         mutations (snd (delete_phase a bucket prefix st s)) = mutations s"
proof (cases "delete a")
  case False
  then show ?thesis by (simp add: delete_phase_def)
next
  case True
  obtain r s1 where h: "list_objects_keys s bucket (list_prefix_of prefix) = (r, s1)"
    by (cases "list_objects_keys s bucket (list_prefix_of prefix)")
  then have s1: "s1 = issue (ListObjectsV2 bucket (list_prefix_of prefix)) s"
    using list_state [of s bucket "list_prefix_of prefix"] by simp
  have fr: "objects s1 = objects s \<and> mutations s1 = mutations s"
    unfolding s1 by (simp add: issue_frame)
  show ?thesis
  proof (cases r)
    case (Inl e)
    with h fr True show ?thesis by (simp add: delete_phase_def)
  next
    case (Inr ks)
    with h fr True delete_loop_dry [OF assms, of bucket ks st s1] show ?thesis
      by (simp add: delete_phase_def)
  qed
qed

lemma sync_dry_frame:
  assumes "dry_run a"
  shows "objects (snd (sync fm a root s)) = objects s \<and>
         mutations (snd (sync fm a root s)) = mutations s"
proof (cases "\<not> root_exists root \<or> \<not> root_is_dir root")
  case True
  then show ?thesis by (auto simp: sync_def)
next
  case ok: False
  show ?thesis
  proof (cases "parse_s3_uri (s3_uri a)")
    case (Inl e)
    with ok show ?thesis by (simp add: sync_def)
  next
    case (Inr bp)
    obtain bucket prefix where bp: "bp = (bucket, prefix)" by (cases bp)
    obtain r s1 where u: "upload_loop a bucket prefix (iter_files fm root (exclude a)) init_state s = (r, s1)"
      by (cases "upload_loop a bucket prefix (iter_files fm root (exclude a)) init_state s")
    then have fr: "objects s1 = objects s \<and> mutations s1 = mutations s"
      using upload_loop_dry_frame [OF assms, of bucket prefix "iter_files fm root (exclude a)" init_state s]
      by simp
    show ?thesis
    proof (cases r)
      case (Inl e)
      with ok Inr bp u fr show ?thesis by (simp add: sync_def)
    next
      case st1: (Inr st1)
      obtain r2 s2 where d: "delete_phase a bucket prefix st1 s1 = (r2, s2)"
        by (cases "delete_phase a bucket prefix st1 s1")
      then have fr2: "objects s2 = objects s \<and> mutations s2 = mutations s"
        using delete_phase_dry_frame [OF assms, of bucket prefix st1 s1] fr by simp
      show ?thesis
        using ok Inr bp u st1 d fr2 by (cases r2) (simp_all add: sync_def)
    qed
  qed
qed

lemma main_dry_frame:
  assumes "dry_run a"
  shows "objects (snd (main fm a root s)) = objects s \<and>
         mutations (snd (main fm a root s)) = mutations s"
proof -
  obtain r s0 where v: "validate_creds s (profile a) = (r, s0)"
    by (cases "validate_creds s (profile a)")
  then have s0: "s0 = issue GetCallerIdentity s"
    using validate_creds_state [of s "profile a"] by simp
  have fr: "objects s0 = objects s \<and> mutations s0 = mutations s"
    unfolding s0 by (simp add: issue_frame)
  show ?thesis
  proof (cases r)
    case (Inl e)
    with v fr show ?thesis by (simp add: main_def)
  next
    case (Inr u)
    show ?thesis
    proof (cases "cmd a = ''sync''")
      case False
      with v Inr fr show ?thesis by (simp add: main_def)
    next
      case True
      obtain r1 s1 where y: "sync fm a root s0 = (r1, s1)" by (cases "sync fm a root s0")
      then have fr1: "objects s1 = objects s \<and> mutations s1 = mutations s"
        using sync_dry_frame [OF assms, of fm root s0] fr by simp
      show ?thesis
        using v Inr True y fr1 by (cases r1) (auto simp: main_def)
    qed
  qed
qed

lemma ex_main_dry:
  "fst (main glob_match (ex_args\<lparr>dry_run := True\<rparr>) ex_root ex_store) =
     (0, Some ([(''cmd'', JStr ''sync''), (''local_dir'', JStr ''/data''), (''bucket'', JStr ''bkt''),
                (''prefix'', JStr []), (''dry_run'', JBool True), (''uploaded'', JInt 0),
                (''skipped'', JInt 1), (''deleted'', JInt 1), (''total_actions'', JInt 1)],
               [[(''action'', JStr ''delete''), (''bucket'', JStr ''bkt''), (''key'', JStr ''old.txt''),
                 (''dry_run'', JBool True)]]))"
  by code_simp

section \<open>What the two loops add\<close>

lemma action_kind_key [simp]:
  "action_kind (upload_action bucket key p dry) = ''upload''"
  "action_key (upload_action bucket key p dry) = key"
  "action_kind (delete_action bucket key dry) = ''delete''"
  "action_key (delete_action bucket key dry) = key"
  by (simp_all add: action_kind_def action_key_def upload_action_def delete_action_def)

lemma keys_of_append: "keys_of kind (xs @ ys) = keys_of kind xs @ keys_of kind ys"
  by (simp add: keys_of_def)

lemma append_upload_result:
  assumes "append_upload dry bucket key f st s = (Inr st', s')"
  shows "st' = st\<lparr>actions := actions st @ [upload_action bucket key (path f) dry],
                   uploaded := uploaded st + 1\<rparr>"
  using assms upload_file_result [of s bucket key "path f" "mtime f" dry]
  by (auto simp: append_upload_def split: prod.splits sum.splits)

lemma sync_file_result:
  assumes "sync_file a bucket prefix f st s = (Inr st', s')"
  shows "(st' = st\<lparr>local_key_set := insert (join_s3_key prefix (rel f)) (local_key_set st),
                    actions := actions st @ [upload_action bucket (join_s3_key prefix (rel f)) (path f) (dry_run a)],
                    uploaded := uploaded st + 1\<rparr>) \<or>
         (st' = st\<lparr>local_key_set := insert (join_s3_key prefix (rel f)) (local_key_set st),
                    skipped := skipped st + 1\<rparr>)"
proof -
  obtain r s1 where h: "head_object_etag_size_mtime s bucket (join_s3_key prefix (rel f)) = (r, s1)"
    by (cases "head_object_etag_size_mtime s bucket (join_s3_key prefix (rel f))")
  show ?thesis
    using assms h
    by (auto simp: sync_file_def Let_def split: sum.splits option.splits if_splits
        dest!: append_upload_result)
qed

lemma upload_loop_result:
  assumes "upload_loop a bucket prefix fs st s = (Inr st', s')"
  shows "local_key_set st' = local_key_set st \<union> (\<lambda>f. join_s3_key prefix (rel f)) ` set fs \<and>
      deleted st' = deleted st \<and>
      uploaded st' + skipped st' = uploaded st + skipped st + length fs \<and>
      (\<exists>ups. actions st' = actions st @ ups \<and>
         (\<forall>u\<in>set ups. action_kind u = ''upload'' \<and>
            action_key u \<in> (\<lambda>f. join_s3_key prefix (rel f)) ` set fs))"
  using assms
proof (induction fs arbitrary: st s)
  case Nil
  then show ?case by simp
next
  case (Cons f fs)
  obtain r s1 where h: "sync_file a bucket prefix f st s = (r, s1)"
    by (cases "sync_file a bucket prefix f st s")
  with Cons.prems obtain st1 where r: "r = Inr st1"
    by (cases r) simp_all
  with h Cons.prems have rest: "upload_loop a bucket prefix fs st1 s1 = (Inr st', s')" by simp
  note ih = Cons.IH [OF rest]
  from ih obtain ups where ups: "actions st' = actions st1 @ ups"
    and k: "\<forall>u\<in>set ups. action_kind u = ''upload'' \<and>
            action_key u \<in> (\<lambda>f. join_s3_key prefix (rel f)) ` set fs"
    by blast
  from h r sync_file_result [of a bucket prefix f st s st1 s1]
  consider (up) "st1 = st\<lparr>local_key_set := insert (join_s3_key prefix (rel f)) (local_key_set st),
                    actions := actions st @ [upload_action bucket (join_s3_key prefix (rel f)) (path f) (dry_run a)],
                    uploaded := uploaded st + 1\<rparr>"
    | (sk) "st1 = st\<lparr>local_key_set := insert (join_s3_key prefix (rel f)) (local_key_set st),
                    skipped := skipped st + 1\<rparr>"
    by blast
  then show ?case
  proof cases
    case up
    have a: "actions st' = actions st @ (upload_action bucket (join_s3_key prefix (rel f)) (path f) (dry_run a) # ups)"
      using ups up by simp
    have b: "\<forall>u\<in>set (upload_action bucket (join_s3_key prefix (rel f)) (path f) (dry_run a) # ups).
        action_kind u = ''upload'' \<and> action_key u \<in> (\<lambda>f. join_s3_key prefix (rel f)) ` set (f # fs)"
      using k by auto
    from ih up have c: "local_key_set st' = local_key_set st \<union> (\<lambda>f. join_s3_key prefix (rel f)) ` set (f # fs) \<and>
      deleted st' = deleted st \<and>
      uploaded st' + skipped st' = uploaded st + skipped st + length (f # fs)"
      by auto
    from a b c show ?thesis by blast
  next
    case sk
    have a: "actions st' = actions st @ ups"
      using ups sk by simp
    have b: "\<forall>u\<in>set ups.
        action_kind u = ''upload'' \<and> action_key u \<in> (\<lambda>f. join_s3_key prefix (rel f)) ` set (f # fs)"
      using k by auto
    from ih sk have c: "local_key_set st' = local_key_set st \<union> (\<lambda>f. join_s3_key prefix (rel f)) ` set (f # fs) \<and>
      deleted st' = deleted st \<and>
      uploaded st' + skipped st' = uploaded st + skipped st + length (f # fs)"
      by auto
    from a b c show ?thesis by blast
  qed
qed

lemma delete_loop_result:
  assumes "delete_loop a bucket ks st s = (Inr st', s')"
  shows "actions st' = actions st @
           map (\<lambda>k. delete_action bucket k (dry_run a)) (filter (\<lambda>k. k \<notin> local_key_set st) ks) \<and>
         deleted st' = deleted st + length (filter (\<lambda>k. k \<notin> local_key_set st) ks) \<and>
         local_key_set st' = local_key_set st \<and>
         uploaded st' = uploaded st \<and> skipped st' = skipped st"
  using assms
proof (induction ks arbitrary: st s)
  case Nil
  then show ?case by simp
next
  case (Cons k ks)
  show ?case
  proof (cases "k \<in> local_key_set st")
    case True
    with Cons.prems have "delete_loop a bucket ks st s = (Inr st', s')" by simp
    from Cons.IH [OF this] True show ?thesis by simp
  next
    case False
    obtain r s1 where h: "delete_object s bucket k (dry_run a) = (r, s1)"
      by (cases "delete_object s bucket k (dry_run a)")
    with Cons.prems False obtain act where r: "r = Inr act" by (cases r) simp_all
    with h have act: "act = delete_action bucket k (dry_run a)"
      using delete_object_result [of s bucket k "dry_run a" act s1] by simp
    from Cons.prems False h r have
      "delete_loop a bucket ks (st\<lparr>actions := actions st @ [act], deleted := deleted st + 1\<rparr>) s1 = (Inr st', s')"
      by simp
    from Cons.IH [OF this] False act show ?thesis by simp
  qed
qed

lemma delete_loop_total:
  assumes "\<forall>k\<in>set ks. dry_run a \<or> faults s (DeleteObject bucket k) = None"
  shows "\<exists>st' s'. delete_loop a bucket ks st s = (Inr st', s')"
  using assms
proof (induction ks arbitrary: st s)
  case Nil
  show ?case by simp
next
  case (Cons k ks)
  show ?case
  proof (cases "k \<in> local_key_set st")
    case True
    have "\<forall>k\<in>set ks. dry_run a \<or> faults s (DeleteObject bucket k) = None"
      using Cons.prems by auto
    from Cons.IH [OF this, of st] True show ?thesis by simp
  next
    case False
    obtain r s1 where h: "delete_object s bucket k (dry_run a) = (r, s1)"
      by (cases "delete_object s bucket k (dry_run a)")
    have f1: "faults s1 = faults s"
      using delete_object_faults [of s bucket k "dry_run a"] h by simp
    have "\<exists>act. r = Inr act"
      using h Cons.prems
      by (auto simp: delete_object_def client_delete_object_def Let_def split: if_splits option.splits)
    then obtain act where r: "r = Inr act" by blast
    have "\<forall>k\<in>set ks. dry_run a \<or> faults s1 (DeleteObject bucket k) = None"
      using Cons.prems f1 by auto
    from Cons.IH [OF this] h r False show ?thesis by simp
  qed
qed

lemma keys_under_iff:
  "k \<in> set (keys_under s bucket prefix) \<longleftrightarrow>
     (bucket, k) \<in> fst ` set (objects s) \<and> startswith k prefix"
  by (force simp: keys_under_def)

lemma delete_phase_result:
  assumes "delete_phase a bucket prefix st s = (Inr st', s')"
  shows "local_key_set st' = local_key_set st \<and> uploaded st' = uploaded st \<and> skipped st' = skipped st \<and>
     actions st' = actions st @
        (if delete a
         then map (\<lambda>k. delete_action bucket k (dry_run a))
                (filter (\<lambda>k. k \<notin> local_key_set st) (keys_under s bucket (list_prefix_of prefix)))
         else []) \<and>
     deleted st' = deleted st +
        (if delete a
         then length (filter (\<lambda>k. k \<notin> local_key_set st) (keys_under s bucket (list_prefix_of prefix)))
         else 0)"
proof (cases "delete a")
  case False
  with assms show ?thesis by (simp add: delete_phase_def)
next
  case True
  obtain r s1 where h: "list_objects_keys s bucket (list_prefix_of prefix) = (r, s1)"
    by (cases "list_objects_keys s bucket (list_prefix_of prefix)")
  with assms True obtain ks where r: "r = Inr ks"
    by (cases r) (simp_all add: delete_phase_def)
  with h have ks: "ks = keys_under s bucket (list_prefix_of prefix)"
    using list_objects_keys_result [of s bucket "list_prefix_of prefix" ks s1] by simp
  from assms True h r have "delete_loop a bucket ks st s1 = (Inr st', s')"
    by (simp add: delete_phase_def)
  from delete_loop_result [OF this] True ks show ?thesis by simp
qed

lemma list_objects_keys_ok:
  "faults s (ListObjectsV2 bucket prefix) = None \<Longrightarrow>
     list_objects_keys s bucket prefix =
       (Inr (keys_under s bucket prefix), issue (ListObjectsV2 bucket prefix) s)"
  by (simp add: list_objects_keys_def paginate_def Let_def concat_chunk comp_def)

lemma ex_keys_prefix: "keys_under ex_store_prefix ''bkt'' ''backup/'' = [''backup/a.txt'', ''backup/old.txt'']"
  by (simp add: keys_under_def ex_store_prefix_def startswith_def)

section \<open>The keys of the store during the upload loop\<close>

lemma upload_file_dom:
  "fst ` set (objects s) \<subseteq> fst ` set (objects (snd (upload_file s bucket key p m dry))) \<and>
   fst ` set (objects (snd (upload_file s bucket key p m dry))) \<subseteq> insert (bucket, key) (fst ` set (objects s))"
  by (auto simp: upload_file_def client_upload_file_def issue_def Let_def dom_update
      split: option.splits)

lemma append_upload_dom:
  "fst ` set (objects s) \<subseteq> fst ` set (objects (snd (append_upload dry bucket key f st s))) \<and>
   fst ` set (objects (snd (append_upload dry bucket key f st s))) \<subseteq> insert (bucket, key) (fst ` set (objects s))"
proof -
  have "snd (append_upload dry bucket key f st s) = snd (upload_file s bucket key (path f) (mtime f) dry)"
    by (simp add: append_upload_def split: prod.splits sum.splits)
  then show ?thesis using upload_file_dom [of s bucket key "path f" "mtime f" dry] by simp
qed

lemma sync_file_dom:
  "fst ` set (objects s) \<subseteq> fst ` set (objects (snd (sync_file a bucket prefix f st s))) \<and>
   fst ` set (objects (snd (sync_file a bucket prefix f st s)))
     \<subseteq> insert (bucket, join_s3_key prefix (rel f)) (fst ` set (objects s))"
proof -
  let ?k = "join_s3_key prefix (rel f)"
  obtain r s1 where h: "head_object_etag_size_mtime s bucket ?k = (r, s1)"
    by (cases "head_object_etag_size_mtime s bucket ?k")
  then have s1: "objects s1 = objects s"
    using head_state [of s bucket ?k] by (simp add: issue_frame)
  have "snd (sync_file a bucket prefix f st s) = s1 \<or>
        (\<exists>st1. snd (sync_file a bucket prefix f st s) = snd (append_upload (dry_run a) bucket ?k f st1 s1))"
    using h by (auto simp: sync_file_def Let_def split: sum.splits option.splits)
  then show ?thesis
  proof
    assume "snd (sync_file a bucket prefix f st s) = s1"
    with s1 show ?thesis by auto
  next
    assume "\<exists>st1. snd (sync_file a bucket prefix f st s) = snd (append_upload (dry_run a) bucket ?k f st1 s1)"
    then obtain st1 where e: "snd (sync_file a bucket prefix f st s) = snd (append_upload (dry_run a) bucket ?k f st1 s1)"
      by blast
    show ?thesis
      unfolding e using append_upload_dom [of s1 "dry_run a" bucket ?k f st1] s1 by simp
  qed
qed

lemma subset_chain:
  "A \<subseteq> B \<Longrightarrow> B \<subseteq> insert x A \<Longrightarrow> B \<subseteq> C \<Longrightarrow> C \<subseteq> B \<union> F \<Longrightarrow>
     A \<subseteq> C \<and> C \<subseteq> A \<union> insert x F"
  by blast

lemma subset_widen:
  "A \<subseteq> B \<Longrightarrow> B \<subseteq> insert x A \<Longrightarrow> A \<subseteq> B \<and> B \<subseteq> A \<union> insert x F"
  by blast

lemma upload_loop_dom:
  "fst ` set (objects s) \<subseteq> fst ` set (objects (snd (upload_loop a bucket prefix fs st s))) \<and>
   fst ` set (objects (snd (upload_loop a bucket prefix fs st s)))
     \<subseteq> fst ` set (objects s) \<union> (\<lambda>f. (bucket, join_s3_key prefix (rel f))) ` set fs"
proof (induction fs arbitrary: st s)
  case Nil
  show ?case by simp
next
  case (Cons f fs)
  obtain r s1 where h: "sync_file a bucket prefix f st s = (r, s1)"
    by (cases "sync_file a bucket prefix f st s")
  have d1: "fst ` set (objects s) \<subseteq> fst ` set (objects s1) \<and>
      fst ` set (objects s1) \<subseteq> insert (bucket, join_s3_key prefix (rel f)) (fst ` set (objects s))"
    using sync_file_dom [of s a bucket prefix f st] h by simp
  show ?case
  proof (cases r)
    case (Inl e)
    have e: "snd (upload_loop a bucket prefix (f # fs) st s) = s1"
      using h Inl by simp
    have img: "(\<lambda>f. (bucket, join_s3_key prefix (rel f))) ` set (f # fs) =
        insert (bucket, join_s3_key prefix (rel f)) ((\<lambda>f. (bucket, join_s3_key prefix (rel f))) ` set fs)"
      by simp
    show ?thesis
      unfolding e img using subset_widen [OF conjunct1 [OF d1] conjunct2 [OF d1]] by simp
  next
    case (Inr st1)
    have e: "upload_loop a bucket prefix (f # fs) st s = upload_loop a bucket prefix fs st1 s1"
      using h Inr by simp
    have img: "(\<lambda>f. (bucket, join_s3_key prefix (rel f))) ` set (f # fs) =
        insert (bucket, join_s3_key prefix (rel f)) ((\<lambda>f. (bucket, join_s3_key prefix (rel f))) ` set fs)"
      by simp
    show ?thesis
      unfolding e img
      using subset_chain [OF conjunct1 [OF d1] conjunct2 [OF d1]
          conjunct1 [OF Cons.IH [of s1 st1]] conjunct2 [OF Cons.IH [of s1 st1]]]
      by simp
  qed
qed

lemma sync_result:
  assumes "sync fm a root s = (Inr (st, summ), s')"
  shows "\<exists>bucket prefix st1 s1.
     root_exists root \<and> root_is_dir root \<and>
     parse_s3_uri (s3_uri a) = Inr (bucket, prefix) \<and>
     upload_loop a bucket prefix (iter_files fm root (exclude a)) init_state s = (Inr st1, s1) \<and>
     delete_phase a bucket prefix st1 s1 = (Inr st, s') \<and>
     summ = summary a root bucket prefix st"
proof -
  have ok: "root_exists root \<and> root_is_dir root"
    using assms by (auto simp: sync_def split: if_splits)
  obtain bucket prefix where p: "parse_s3_uri (s3_uri a) = Inr (bucket, prefix)"
    using assms ok by (cases "parse_s3_uri (s3_uri a)") (auto simp: sync_def)
  obtain r s1 where u: "upload_loop a bucket prefix (iter_files fm root (exclude a)) init_state s = (r, s1)"
    by (cases "upload_loop a bucket prefix (iter_files fm root (exclude a)) init_state s")
  obtain st1 where r: "r = Inr st1"
    using assms ok p u by (cases r) (auto simp: sync_def)
  obtain r2 s2 where d: "delete_phase a bucket prefix st1 s1 = (r2, s2)"
    by (cases "delete_phase a bucket prefix st1 s1")
  have "r2 = Inr st \<and> s2 = s' \<and> summ = summary a root bucket prefix st"
    using assms ok p u r d by (cases r2) (auto simp: sync_def)
  with ok p u r d show ?thesis by blast
qed

lemma ex_sync_stale:
  "fst (sync glob_match ex_args ex_root ex_store_stale) =
     Inr (\<lparr>actions = [upload_action ''bkt'' ''a.txt'' ''/data/a.txt'' False,
                      delete_action ''bkt'' ''old.txt'' False],
           uploaded = 1, skipped = 0, deleted = 1, local_key_set = {''a.txt''}\<rparr>,
          [(''cmd'', JStr ''sync''), (''local_dir'', JStr ''/data''), (''bucket'', JStr ''bkt''),
           (''prefix'', JStr []), (''dry_run'', JBool False), (''uploaded'', JInt 1),
           (''skipped'', JInt 0), (''deleted'', JInt 1), (''total_actions'', JInt 2)])"
  by code_simp

section \<open>Exclusion and keys\<close>

lemma is_excluded_iff: "is_excluded fm r excludes \<longleftrightarrow> (\<exists>pattern\<in>set excludes. fm r pattern)"
  by (induction excludes) auto

lemma iter_entries_append:
  "iter_entries fm (xs @ ys) excludes = iter_entries fm xs excludes @ iter_entries fm ys excludes"
  by (induction xs) auto

lemma iter_entries_excluded:
  "is_excluded fm (p_rel e) excludes \<Longrightarrow>
     iter_entries fm (xs @ e # ys) excludes = iter_entries fm (xs @ ys) excludes"
  by (simp add: iter_entries_append)

lemma iter_entries_rel:
  "f \<in> set (iter_entries fm es excludes) \<Longrightarrow> \<not> is_excluded fm (rel f) excludes"
  by (induction es) (auto split: if_splits)

lemma iter_entries_length:
  "length (iter_entries fm es excludes) =
     length (filter (\<lambda>p. \<not> p_is_dir p \<and> \<not> is_excluded fm (p_rel p) excludes) es)"
  by (induction es) auto

lemma join_s3_key_inj: "join_s3_key prefix r1 = join_s3_key prefix r2 \<Longrightarrow> r1 = r2"
  by (simp add: join_s3_key_def Let_def split: if_splits)

lemma rstrip_keeps_head:
  "\<not> P x \<Longrightarrow> rev (dropWhile P (rev (x # xs))) = x # rev (dropWhile P (rev xs))"
  by (simp add: dropWhile_append)

lemma strip_idem: "strip c (strip c s) = strip c s"
proof (cases "dropWhile (\<lambda>x. x = c) s")
  case Nil
  show ?thesis unfolding strip_def Nil by simp
next
  case (Cons x xs)
  then have nx: "x \<noteq> c" by (simp add: dropWhile_eq_Cons_conv)
  define zs where "zs = rev (dropWhile (\<lambda>x. x = c) (rev xs))"
  have zs: "rev (dropWhile (\<lambda>x. x = c) (rev (x # xs))) = x # zs"
    unfolding zs_def using nx rstrip_keeps_head [of "\<lambda>x. x = c" x xs] by simp
  have s1: "strip c s = x # zs" by (simp only: strip_def Cons zs)
  have r: "rev (x # zs) = dropWhile (\<lambda>x. x = c) (rev (x # xs))"
    by (simp only: zs [symmetric] rev_rev_ident)
  have d1: "dropWhile (\<lambda>x. x = c) (x # zs) = x # zs" using nx by simp
  have d2: "dropWhile (\<lambda>x. x = c) (rev (x # zs)) = rev (x # zs)"
    by (simp only: r dropWhile_idem)
  have "strip c (x # zs) = x # zs"
    by (simp only: strip_def d1 d2 rev_rev_ident)
  then show ?thesis by (simp only: s1)
qed

lemma parse_s3_uri_stripped:
  "parse_s3_uri uri = Inr (bucket, prefix) \<Longrightarrow> strip (CHR ''/'') prefix = prefix"
  by (auto simp: parse_s3_uri_def Let_def strip_idem split: if_splits)

lemma join_under_list_prefix:
  "strip (CHR ''/'') prefix = prefix \<Longrightarrow> startswith (join_s3_key prefix r) (list_prefix_of prefix)"
  by (simp add: join_s3_key_def list_prefix_of_def startswith_def Let_def)

lemma sync_keys:
  assumes "sync fm a root s = (Inr (st, summ), s')"
  shows "\<exists>bucket prefix.
     parse_s3_uri (s3_uri a) = Inr (bucket, prefix) \<and>
     local_key_set st = (\<lambda>f. join_s3_key prefix (rel f)) ` set (iter_files fm root (exclude a)) \<and>
     set (keys_of ''upload'' (actions st)) \<subseteq> local_key_set st \<and>
     set (keys_of ''delete'' (actions st))
       \<subseteq> set (keys_under s bucket (list_prefix_of prefix)) - local_key_set st \<and>
     set (keys_of ''upload'' (actions st)) \<inter> set (keys_of ''delete'' (actions st)) = {} \<and>
     (\<forall>act\<in>set (actions st). action_kind act = ''upload'' \<or> action_kind act = ''delete'') \<and>
     (\<not> delete a \<longrightarrow> keys_of ''delete'' (actions st) = [])"
proof -
  from sync_result [OF assms] obtain bucket prefix st1 s1 where
    p: "parse_s3_uri (s3_uri a) = Inr (bucket, prefix)"
    and u: "upload_loop a bucket prefix (iter_files fm root (exclude a)) init_state s = (Inr st1, s1)"
    and d: "delete_phase a bucket prefix st1 s1 = (Inr st, s')"
    by blast
  let ?fs = "iter_files fm root (exclude a)"
  let ?K = "(\<lambda>f. join_s3_key prefix (rel f)) ` set ?fs"
  let ?lp = "list_prefix_of prefix"
  from upload_loop_result [OF u] obtain ups where
    k1: "local_key_set st1 = ?K"
    and a1: "actions st1 = ups"
    and ups: "\<forall>u\<in>set ups. action_kind u = ''upload'' \<and> action_key u \<in> ?K"
    by (auto simp: init_state_def)
  let ?dks = "if delete a then filter (\<lambda>k. k \<notin> ?K) (keys_under s1 bucket ?lp) else []"
  from delete_phase_result [OF d] k1 a1 have
    k2: "local_key_set st = ?K"
    and a2: "actions st = ups @ map (\<lambda>k. delete_action bucket k (dry_run a)) ?dks"
    by auto
  have ku: "keys_of ''upload'' (actions st) = map action_key ups"
    unfolding a2 using ups by (auto simp: keys_of_def filter_id_conv)
  have kd: "keys_of ''delete'' (actions st) = ?dks"
    unfolding a2 using ups by (auto simp: keys_of_def comp_def)
  have dom: "fst ` set (objects s1) \<subseteq> fst ` set (objects s) \<union> (\<lambda>f. (bucket, join_s3_key prefix (rel f))) ` set ?fs"
    using upload_loop_dom [of s a bucket prefix ?fs init_state] u by simp
  have sub: "set ?dks \<subseteq> set (keys_under s bucket ?lp) - ?K"
  proof
    fix k assume k: "k \<in> set ?dks"
    then have "k \<notin> ?K" and "(bucket, k) \<in> fst ` set (objects s1)" and sw: "startswith k ?lp"
      by (auto simp: keys_under_iff split: if_splits)
    with dom have "(bucket, k) \<in> fst ` set (objects s)" by auto
    with sw \<open>k \<notin> ?K\<close> show "k \<in> set (keys_under s bucket ?lp) - ?K"
      by (simp add: keys_under_iff)
  qed
  have c1: "set (keys_of ''upload'' (actions st)) \<subseteq> local_key_set st"
    unfolding ku k2 using ups by auto
  have c2: "set (keys_of ''delete'' (actions st)) \<subseteq> set (keys_under s bucket ?lp) - local_key_set st"
    unfolding kd k2 using sub .
  have c3: "set (keys_of ''upload'' (actions st)) \<inter> set (keys_of ''delete'' (actions st)) = {}"
    using c1 c2 by auto
  have c4: "\<forall>act\<in>set (actions st). action_kind act = ''upload'' \<or> action_kind act = ''delete''"
    unfolding a2 using ups by auto
  have c5: "\<not> delete a \<longrightarrow> keys_of ''delete'' (actions st) = []"
    unfolding kd by simp
  from p k2 c1 c2 c3 c4 c5 show ?thesis by blast
qed

lemma excluded_key_not_local:
  assumes "is_excluded fm r (exclude a)"
  shows "join_s3_key prefix r \<notin> (\<lambda>f. join_s3_key prefix (rel f)) ` set (iter_files fm root (exclude a))"
proof
  assume "join_s3_key prefix r \<in> (\<lambda>f. join_s3_key prefix (rel f)) ` set (iter_files fm root (exclude a))"
  then obtain f where f: "f \<in> set (iter_files fm root (exclude a))"
    and k: "join_s3_key prefix r = join_s3_key prefix (rel f)" by blast
  from k have "r = rel f" by (rule join_s3_key_inj)
  moreover from f have "\<not> is_excluded fm (rel f) (exclude a)"
    unfolding iter_files_def by (rule iter_entries_rel)
  ultimately show False using assms by simp
qed

lemma sync_rglob_cong:
  assumes "iter_files fm root1 (exclude a) = iter_files fm root2 (exclude a)"
    and "root_exists root1 = root_exists root2" and "root_is_dir root1 = root_is_dir root2"
    and "root_path root1 = root_path root2"
  shows "sync fm a root1 s = sync fm a root2 s"
  unfolding sync_def summary_def assms by (rule refl)

lemma ex_main_live:
  "fst (main glob_match ex_args ex_root ex_store) =
     (0, Some ([(''cmd'', JStr ''sync''), (''local_dir'', JStr ''/data''), (''bucket'', JStr ''bkt''),
                (''prefix'', JStr []), (''dry_run'', JBool False), (''uploaded'', JInt 0),
                (''skipped'', JInt 1), (''deleted'', JInt 1), (''total_actions'', JInt 1)],
               [[(''action'', JStr ''delete''), (''bucket'', JStr ''bkt''), (''key'', JStr ''old.txt''),
                 (''dry_run'', JBool False)]]))"
  by code_simp

lemma keys_of_mem:
  "act \<in> set acts \<Longrightarrow> action_kind act = kind \<Longrightarrow> action_key act \<in> set (keys_of kind acts)"
  by (auto simp: keys_of_def)

lemma excluded_key_listed:
  assumes "parse_s3_uri (s3_uri a) = Inr (bucket, prefix)"
    and "(bucket, join_s3_key prefix r) \<in> fst ` set (objects s)"
    and "fst ` set (objects s) \<subseteq> fst ` set (objects s1)"
  shows "join_s3_key prefix r \<in> set (keys_under s1 bucket (list_prefix_of prefix))"
  using assms parse_s3_uri_stripped [of "s3_uri a" bucket prefix]
    join_under_list_prefix [of prefix r]
  by (auto simp: keys_under_iff)

lemma ex_parse: "parse_s3_uri ''s3://bkt'' = Inr (''bkt'', [])"
  by (simp add: parse_s3_uri_def startswith_def split1_def strip_def Let_def)

lemma ex_sync_log:
  "fst (sync glob_match ex_args ex_root ex_store_log) =
     Inr (\<lparr>actions = [delete_action ''bkt'' ''b.log'' False],
           uploaded = 0, skipped = 1, deleted = 1, local_key_set = {''a.txt''}\<rparr>,
          [(''cmd'', JStr ''sync''), (''local_dir'', JStr ''/data''), (''bucket'', JStr ''bkt''),
           (''prefix'', JStr []), (''dry_run'', JBool False), (''uploaded'', JInt 0),
           (''skipped'', JInt 1), (''deleted'', JInt 1), (''total_actions'', JInt 1)])"
  by code_simp

section \<open>Failures of the head lookup\<close>




lemma upload_loop_faults: "faults (snd (upload_loop a bucket prefix fs st s)) = faults s"
proof (induction fs arbitrary: st s)
  case Nil
  show ?case by simp
next
  case (Cons f fs)
  obtain r s1 where h: "sync_file a bucket prefix f st s = (r, s1)"
    by (cases "sync_file a bucket prefix f st s")
  then have f1: "faults s1 = faults s"
    using sync_file_faults [of a bucket prefix f st s] by simp
  show ?case
  proof (cases r)
    case (Inl e)
    with h f1 show ?thesis by simp
  next
    case (Inr st1)
    with h f1 Cons.IH [of st1 s1] show ?thesis by simp
  qed
qed



lemma main_error:
  assumes "(\<exists>e' s'. sync fm a root (issue GetCallerIdentity s) = (Inl e', s')) \<or> cmd a \<noteq> ''sync''"
  shows "fst (main fm a root s) = (EXIT_ERROR, None)"
proof -
  obtain r s0 where v: "validate_creds s (profile a) = (r, s0)"
    by (cases "validate_creds s (profile a)")
  then have s0: "s0 = issue GetCallerIdentity s"
    using validate_creds_state [of s "profile a"] by simp
  show ?thesis
  proof (cases r)
    case (Inl e)
    with v show ?thesis by (simp add: main_def)
  next
    case (Inr u)
    with v s0 assms show ?thesis by (auto simp: main_def)
  qed
qed

lemma main_error_state:
  assumes "\<exists>e'. sync fm a root (issue GetCallerIdentity s) = (Inl e', issue GetCallerIdentity s)"
  shows "snd (main fm a root s) = issue GetCallerIdentity s"
proof -
  obtain r s0 where v: "validate_creds s (profile a) = (r, s0)"
    by (cases "validate_creds s (profile a)")
  then have s0: "s0 = issue GetCallerIdentity s"
    using validate_creds_state [of s "profile a"] by simp
  show ?thesis
  proof (cases r)
    case (Inl e)
    with v s0 show ?thesis by (simp add: main_def)
  next
    case (Inr u)
    with v s0 assms show ?thesis by (auto simp: main_def)
  qed
qed




section \<open>Properties of the synchronisation\<close>







text \<open>
  C5. A dry run returns, for an upload and for a delete, a record with the same fields
  in the same order as the record of the live call (action, bucket, key, and the local
  path for an upload), equal in every field but \<open>dry_run\<close>, and returns it without
  touching the store; and a whole dry run issues no upload and no delete call and
  leaves the objects of the store as they were.
\<close>

theorem dry_run_same_shape_no_mutation:
  "upload_file s bucket key p m True = (Inr (upload_action bucket key p True), s) \<and>
   (\<forall>act s'. upload_file s bucket key p m False = (Inr act, s') \<longrightarrow>
      act = upload_action bucket key p False) \<and>
   map fst (upload_action bucket key p True) = map fst (upload_action bucket key p False) \<and>
   map fst (upload_action bucket key p True) = [''action'', ''bucket'', ''key'', ''local'', ''dry_run''] \<and>
   (\<forall>field. field \<noteq> ''dry_run'' \<longrightarrow>
      map_of (upload_action bucket key p True) field = map_of (upload_action bucket key p False) field) \<and>
   map_of (upload_action bucket key p True) ''dry_run'' = Some (JBool True) \<and>
   map_of (upload_action bucket key p False) ''dry_run'' = Some (JBool False) \<and>
   delete_object s bucket key True = (Inr (delete_action bucket key True), s) \<and>
   (\<forall>act s'. delete_object s bucket key False = (Inr act, s') \<longrightarrow>
      act = delete_action bucket key False) \<and>
   map fst (delete_action bucket key True) = map fst (delete_action bucket key False) \<and>
   map fst (delete_action bucket key True) = [''action'', ''bucket'', ''key'', ''dry_run''] \<and>
   (\<forall>field. field \<noteq> ''dry_run'' \<longrightarrow>
      map_of (delete_action bucket key True) field = map_of (delete_action bucket key False) field) \<and>
   map_of (delete_action bucket key True) ''dry_run'' = Some (JBool True) \<and>
   map_of (delete_action bucket key False) ''dry_run'' = Some (JBool False) \<and>
   (dry_run a \<longrightarrow>
      objects (snd (sync fm a root s)) = objects s \<and>
      mutations (snd (sync fm a root s)) = mutations s \<and>
      objects (snd (main fm a root s)) = objects s \<and>
      mutations (snd (main fm a root s)) = mutations s)"
proof -
  have u: "\<forall>act s'. upload_file s bucket key p m False = (Inr act, s') \<longrightarrow>
      act = upload_action bucket key p False"
    using upload_file_result [of s bucket key p m False] by blast
  have d: "\<forall>act s'. delete_object s bucket key False = (Inr act, s') \<longrightarrow>
      act = delete_action bucket key False"
    using delete_object_result [of s bucket key False] by blast
  have shape_u: "map fst (upload_action bucket key p dry) = [''action'', ''bucket'', ''key'', ''local'', ''dry_run'']" for dry
    by (simp add: upload_action_def)
  have shape_d: "map fst (delete_action bucket key dry) = [''action'', ''bucket'', ''key'', ''dry_run'']" for dry
    by (simp add: delete_action_def)
  have fu: "\<forall>field. field \<noteq> ''dry_run'' \<longrightarrow>
      map_of (upload_action bucket key p True) field = map_of (upload_action bucket key p False) field"
    by (simp add: upload_action_def)
  have fd: "\<forall>field. field \<noteq> ''dry_run'' \<longrightarrow>
      map_of (delete_action bucket key True) field = map_of (delete_action bucket key False) field"
    by (simp add: delete_action_def)
  have flag_u: "map_of (upload_action bucket key p dry) ''dry_run'' = Some (JBool dry)" for dry
    by (simp add: upload_action_def)
  have flag_d: "map_of (delete_action bucket key dry) ''dry_run'' = Some (JBool dry)" for dry
    by (simp add: delete_action_def)
  have run: "dry_run a \<longrightarrow>
      objects (snd (sync fm a root s)) = objects s \<and>
      mutations (snd (sync fm a root s)) = mutations s \<and>
      objects (snd (main fm a root s)) = objects s \<and>
      mutations (snd (main fm a root s)) = mutations s"
    using sync_dry_frame [of a fm root s] main_dry_frame [of a fm root s] by blast
  show ?thesis
    using u d shape_u shape_d fu fd flag_u flag_d run
    by (simp only: upload_file_dry delete_object_dry simp_thms)
qed

theorem dry_run_same_shape_no_mutation_witness:
  "objects (snd (main glob_match (ex_args\<lparr>dry_run := True\<rparr>) ex_root ex_store)) = objects ex_store \<and>
   mutations (snd (main glob_match (ex_args\<lparr>dry_run := True\<rparr>) ex_root ex_store)) = [] \<and>
   fst (main glob_match (ex_args\<lparr>dry_run := True\<rparr>) ex_root ex_store) =
     (0, Some ([(''cmd'', JStr ''sync''), (''local_dir'', JStr ''/data''), (''bucket'', JStr ''bkt''),
                (''prefix'', JStr []), (''dry_run'', JBool True), (''uploaded'', JInt 0),
                (''skipped'', JInt 1), (''deleted'', JInt 1), (''total_actions'', JInt 1)],
               [delete_action ''bkt'' ''old.txt'' True])) \<and>
   delete_object ex_store ''bkt'' ''old.txt'' True = (Inr (delete_action ''bkt'' ''old.txt'' True), ex_store)"
proof -
  have dr: "dry_run (ex_args\<lparr>dry_run := True\<rparr>)" by simp
  have m: "mutations ex_store = []" by (simp add: mutations_def ex_store_def)
  note th = dry_run_same_shape_no_mutation [of ex_store "''bkt''" "''old.txt''" "''/data/old.txt''" 0
      "ex_args\<lparr>dry_run := True\<rparr>" glob_match ex_root]
  show ?thesis
    using th dr m ex_main_dry by (simp add: delete_action_def)
qed

text \<open>
  C4. With deletion enabled, a deletion phase that completes has listed the keys of the
  bucket under the prefix followed by a slash (under the empty prefix: every key of the
  bucket), and has appended exactly one delete action, in listing order, for each listed
  key that is not in the locally-present key set, counting each; every key it deletes
  starts with the slash-terminated prefix. The phase completes whenever the listing
  and the delete calls it issues are not answered with an exception.
\<close>

theorem delete_phase_lists_prefix:
  "(delete a \<and> delete_phase a bucket prefix st s = (Inr st', s') \<longrightarrow>
      list_objects_keys s bucket (list_prefix_of prefix) =
        (Inr (keys_under s bucket (list_prefix_of prefix)),
         issue (ListObjectsV2 bucket (list_prefix_of prefix)) s) \<and>
      list_prefix_of prefix = (if prefix = [] then [] else prefix @ ''/'') \<and>
      (prefix = [] \<longrightarrow>
         keys_under s bucket (list_prefix_of prefix) =
           map (\<lambda>bk. snd (fst bk)) (filter (\<lambda>bk. fst (fst bk) = bucket) (objects s))) \<and>
      actions st' = actions st @
        map (\<lambda>k. delete_action bucket k (dry_run a))
          (filter (\<lambda>k. k \<notin> local_key_set st) (keys_under s bucket (list_prefix_of prefix))) \<and>
      deleted st' = deleted st +
        length (filter (\<lambda>k. k \<notin> local_key_set st) (keys_under s bucket (list_prefix_of prefix))) \<and>
      local_key_set st' = local_key_set st \<and>
      (\<forall>k\<in>set (keys_of ''delete'' (drop (length (actions st)) (actions st'))).
         startswith k (list_prefix_of prefix) \<and> (bucket, k) \<in> fst ` set (objects s) \<and>
         k \<notin> local_key_set st)) \<and>
   (delete a \<and> faults s (ListObjectsV2 bucket (list_prefix_of prefix)) = None \<and>
      (\<forall>k. dry_run a \<or> faults s (DeleteObject bucket k) = None) \<longrightarrow>
      (\<exists>st' s'. delete_phase a bucket prefix st s = (Inr st', s')))"
proof (intro conjI impI)
  assume a: "delete a \<and> faults s (ListObjectsV2 bucket (list_prefix_of prefix)) = None \<and>
      (\<forall>k. dry_run a \<or> faults s (DeleteObject bucket k) = None)"
  let ?s1 = "issue (ListObjectsV2 bucket (list_prefix_of prefix)) s"
  let ?ks = "keys_under s bucket (list_prefix_of prefix)"
  have l: "list_objects_keys s bucket (list_prefix_of prefix) = (Inr ?ks, ?s1)"
    using a by (simp add: list_objects_keys_ok)
  have "\<forall>k\<in>set ?ks. dry_run a \<or> faults ?s1 (DeleteObject bucket k) = None"
    using a by (auto simp: issue_frame)
  from delete_loop_total [OF this, of st] l a
  show "\<exists>st' s'. delete_phase a bucket prefix st s = (Inr st', s')"
    by (simp add: delete_phase_def)
next
  assume a: "delete a \<and> delete_phase a bucket prefix st s = (Inr st', s')"
  let ?ks = "keys_under s bucket (list_prefix_of prefix)"
  let ?del = "map (\<lambda>k. delete_action bucket k (dry_run a)) (filter (\<lambda>k. k \<notin> local_key_set st) ?ks)"
  note res = delete_phase_result [of a bucket prefix st s st' s']
  from a res have act: "actions st' = actions st @ ?del" by simp
  from a res show "actions st' = actions st @ ?del" by simp
  from a res show "deleted st' = deleted st + length (filter (\<lambda>k. k \<notin> local_key_set st) ?ks)"
    by simp
  from a res show "local_key_set st' = local_key_set st" by simp
  show "list_prefix_of prefix = (if prefix = [] then [] else prefix @ ''/'')"
    by (simp add: list_prefix_of_def)
  show "keys_under s bucket (list_prefix_of prefix) =
           map (\<lambda>bk. snd (fst bk)) (filter (\<lambda>bk. fst (fst bk) = bucket) (objects s))"
    if "prefix = []"
    using that by (simp add: keys_under_def list_prefix_of_def startswith_def)
  have "\<exists>r. list_objects_keys s bucket (list_prefix_of prefix) = (Inr r, issue (ListObjectsV2 bucket (list_prefix_of prefix)) s)"
  proof -
    obtain r s1 where h: "list_objects_keys s bucket (list_prefix_of prefix) = (r, s1)"
      by (cases "list_objects_keys s bucket (list_prefix_of prefix)")
    with a obtain ks where "r = Inr ks" by (cases r) (auto simp: delete_phase_def)
    with h list_state [of s bucket "list_prefix_of prefix"] show ?thesis by simp
  qed
  then show "list_objects_keys s bucket (list_prefix_of prefix) =
        (Inr ?ks, issue (ListObjectsV2 bucket (list_prefix_of prefix)) s)"
    using list_objects_keys_result [of s bucket "list_prefix_of prefix"] by auto
  have "keys_of ''delete'' (drop (length (actions st)) (actions st')) = filter (\<lambda>k. k \<notin> local_key_set st) ?ks"
    unfolding act by (simp add: keys_of_def comp_def)
  then show "\<forall>k\<in>set (keys_of ''delete'' (drop (length (actions st)) (actions st'))).
         startswith k (list_prefix_of prefix) \<and> (bucket, k) \<in> fst ` set (objects s) \<and>
         k \<notin> local_key_set st"
    by (auto simp: keys_under_iff)
qed

theorem delete_phase_lists_prefix_witness:
  "\<exists>st' s'.
     delete_phase (ex_args\<lparr>dry_run := True\<rparr>) ''bkt'' ''backup''
       (init_state\<lparr>local_key_set := {''backup/a.txt''}\<rparr>) ex_store_prefix = (Inr st', s') \<and>
     actions st' = [delete_action ''bkt'' ''backup/old.txt'' True] \<and>
     deleted st' = 1"
proof -
  let ?a = "ex_args\<lparr>dry_run := True\<rparr>"
  let ?st = "init_state\<lparr>local_key_set := {''backup/a.txt''}\<rparr>"
  have d: "delete ?a" "dry_run ?a" by (simp_all add: ex_args_def)
  have f: "faults ex_store_prefix c = None" for c by (simp add: ex_store_prefix_def ex_store_def)
  have lp: "list_prefix_of ''backup'' = ''backup/''" by (simp add: list_prefix_of_def)
  note th = delete_phase_lists_prefix [of ?a "''bkt''" "''backup''" ?st ex_store_prefix]
  from th d f obtain st' s' where
    r: "delete_phase ?a ''bkt'' ''backup'' ?st ex_store_prefix = (Inr st', s')"
    by blast
  have "actions st' = actions ?st @
        map (\<lambda>k. delete_action ''bkt'' k (dry_run ?a))
          (filter (\<lambda>k. k \<notin> local_key_set ?st) (keys_under ex_store_prefix ''bkt'' (list_prefix_of ''backup''))) \<and>
      deleted st' = deleted ?st +
        length (filter (\<lambda>k. k \<notin> local_key_set ?st) (keys_under ex_store_prefix ''bkt'' (list_prefix_of ''backup'')))"
    using delete_phase_lists_prefix [of ?a "''bkt''" "''backup''" ?st ex_store_prefix st' s'] d r
    by blast
  then have "actions st' = [delete_action ''bkt'' ''backup/old.txt'' True] \<and> deleted st' = 1"
    by (simp add: lp ex_keys_prefix init_state_def)
  with r show ?thesis by blast
qed

text \<open>
  C3. In a run that completes, whatever the strategy, the delete flag and the dry-run
  flag: the locally-present key set is the set of keys of the scanned files; every key
  of an upload action is in it; every key of a delete action is a key of the bucket
  under the listing prefix that is not in it; so no key is the target of an upload and
  of a delete action of the same run. Every action is an upload or a delete, and
  without the delete flag there is no delete action.
\<close>

theorem upload_delete_disjoint:
  assumes "sync fm a root s = (Inr (st, summ), s')"
  shows "\<exists>bucket prefix.
     parse_s3_uri (s3_uri a) = Inr (bucket, prefix) \<and>
     local_key_set st = (\<lambda>f. join_s3_key prefix (rel f)) ` set (iter_files fm root (exclude a)) \<and>
     set (keys_of ''upload'' (actions st)) \<subseteq> local_key_set st \<and>
     set (keys_of ''delete'' (actions st))
       \<subseteq> set (keys_under s bucket (list_prefix_of prefix)) - local_key_set st \<and>
     set (keys_of ''upload'' (actions st)) \<inter> set (keys_of ''delete'' (actions st)) = {} \<and>
     (\<forall>act\<in>set (actions st). action_kind act = ''upload'' \<or> action_kind act = ''delete'') \<and>
     (\<not> delete a \<longrightarrow> keys_of ''delete'' (actions st) = [])"
  using sync_keys [OF assms] .

theorem upload_delete_disjoint_witness:
  "fst (sync glob_match ex_args ex_root ex_store_stale) =
     Inr (\<lparr>actions = [upload_action ''bkt'' ''a.txt'' ''/data/a.txt'' False,
                      delete_action ''bkt'' ''old.txt'' False],
           uploaded = 1, skipped = 0, deleted = 1, local_key_set = {''a.txt''}\<rparr>,
          [(''cmd'', JStr ''sync''), (''local_dir'', JStr ''/data''), (''bucket'', JStr ''bkt''),
           (''prefix'', JStr []), (''dry_run'', JBool False), (''uploaded'', JInt 1),
           (''skipped'', JInt 0), (''deleted'', JInt 1), (''total_actions'', JInt 2)]) \<and>
   set (keys_of ''upload'' [upload_action ''bkt'' ''a.txt'' ''/data/a.txt'' False,
                            delete_action ''bkt'' ''old.txt'' False]) \<subseteq> {''a.txt''} \<and>
   set (keys_of ''upload'' [upload_action ''bkt'' ''a.txt'' ''/data/a.txt'' False,
                            delete_action ''bkt'' ''old.txt'' False]) \<inter>
   set (keys_of ''delete'' [upload_action ''bkt'' ''a.txt'' ''/data/a.txt'' False,
                            delete_action ''bkt'' ''old.txt'' False]) = {}"
proof -
  define st where "st = \<lparr>actions = [upload_action ''bkt'' ''a.txt'' ''/data/a.txt'' False,
                      delete_action ''bkt'' ''old.txt'' False],
           uploaded = 1, skipped = 0, deleted = 1, local_key_set = {''a.txt''}\<rparr>"
  define summ where "summ = [(''cmd'', JStr ''sync''), (''local_dir'', JStr ''/data''), (''bucket'', JStr ''bkt''),
           (''prefix'', JStr []), (''dry_run'', JBool False), (''uploaded'', JInt 1),
           (''skipped'', JInt 0), (''deleted'', JInt 1), (''total_actions'', JInt (2::int))]"
  have e: "fst (sync glob_match ex_args ex_root ex_store_stale) = Inr (st, summ)"
    unfolding st_def summ_def by (rule ex_sync_stale)
  have r: "sync glob_match ex_args ex_root ex_store_stale =
      (Inr (st, summ), snd (sync glob_match ex_args ex_root ex_store_stale))"
    by (subst e [symmetric]) (rule prod.collapse [symmetric])
  from upload_delete_disjoint [OF r] obtain bucket prefix where
    c: "set (keys_of ''upload'' (actions st)) \<subseteq> local_key_set st"
       "set (keys_of ''upload'' (actions st)) \<inter> set (keys_of ''delete'' (actions st)) = {}"
    by (elim exE conjE)
  have a: "actions st = [upload_action ''bkt'' ''a.txt'' ''/data/a.txt'' False,
                      delete_action ''bkt'' ''old.txt'' False]"
    and k: "local_key_set st = {''a.txt''}"
    by (simp_all add: st_def)
  from c have "set (keys_of ''upload'' [upload_action ''bkt'' ''a.txt'' ''/data/a.txt'' False,
                            delete_action ''bkt'' ''old.txt'' False]) \<subseteq> {''a.txt''}"
    and "set (keys_of ''upload'' [upload_action ''bkt'' ''a.txt'' ''/data/a.txt'' False,
                            delete_action ''bkt'' ''old.txt'' False]) \<inter>
   set (keys_of ''delete'' [upload_action ''bkt'' ''a.txt'' ''/data/a.txt'' False,
                            delete_action ''bkt'' ''old.txt'' False]) = {}"
    unfolding a k by this+
  with ex_sync_stale show ?thesis by (intro conjI)
qed

text \<open>
  C6. A local file whose root-relative path matches one of the exclusion patterns (for
  any matcher standing for \<open>fnmatch\<close>) is excluded by the scan, and the run is the run
  on the tree without that file: the same result, the same actions, the same counters
  and the same calls. In a run that completes, its key is not in the locally-present
  key set, no upload action has its key, and the uploaded and skipped counters add up
  to the number of the other files that are not excluded.
\<close>

theorem excluded_file_absent:
  assumes "\<exists>pattern\<in>set (exclude a). fm (p_rel e) pattern"
  shows "is_excluded fm (p_rel e) (exclude a) \<and>
     iter_files fm (root\<lparr>rglob := xs @ e # ys\<rparr>) (exclude a) =
       iter_files fm (root\<lparr>rglob := xs @ ys\<rparr>) (exclude a) \<and>
     sync fm a (root\<lparr>rglob := xs @ e # ys\<rparr>) s = sync fm a (root\<lparr>rglob := xs @ ys\<rparr>) s \<and>
     main fm a (root\<lparr>rglob := xs @ e # ys\<rparr>) s = main fm a (root\<lparr>rglob := xs @ ys\<rparr>) s \<and>
     (\<forall>st summ s' bucket prefix.
        sync fm a (root\<lparr>rglob := xs @ e # ys\<rparr>) s = (Inr (st, summ), s') \<and>
        parse_s3_uri (s3_uri a) = Inr (bucket, prefix) \<longrightarrow>
          join_s3_key prefix (p_rel e) \<notin> local_key_set st \<and>
          join_s3_key prefix (p_rel e) \<notin> set (keys_of ''upload'' (actions st)) \<and>
          uploaded st + skipped st =
            length (filter (\<lambda>p. \<not> p_is_dir p \<and> \<not> is_excluded fm (p_rel p) (exclude a)) (xs @ ys)))"
proof -
  let ?r1 = "root\<lparr>rglob := xs @ e # ys\<rparr>"
  let ?r2 = "root\<lparr>rglob := xs @ ys\<rparr>"
  have ex: "is_excluded fm (p_rel e) (exclude a)"
    using assms by (simp add: is_excluded_iff)
  have it: "iter_files fm ?r1 (exclude a) = iter_files fm ?r2 (exclude a)"
    using ex by (simp add: iter_files_def iter_entries_excluded)
  have sy: "sync fm a ?r1 s = sync fm a ?r2 s" for s
    using it by (rule sync_rglob_cong) simp_all
  have ma: "main fm a ?r1 s = main fm a ?r2 s"
    unfolding main_def sy by (rule refl)
  have run: "join_s3_key prefix (p_rel e) \<notin> local_key_set st \<and>
          join_s3_key prefix (p_rel e) \<notin> set (keys_of ''upload'' (actions st)) \<and>
          uploaded st + skipped st =
            length (filter (\<lambda>p. \<not> p_is_dir p \<and> \<not> is_excluded fm (p_rel p) (exclude a)) (xs @ ys))"
    if r: "sync fm a ?r1 s = (Inr (st, summ), s')" and p: "parse_s3_uri (s3_uri a) = Inr (bucket, prefix)"
    for st summ s' bucket prefix
  proof -
    from sync_result [OF r] p obtain st1 s1 where
      u: "upload_loop a bucket prefix (iter_files fm ?r1 (exclude a)) init_state s = (Inr st1, s1)"
      and d: "delete_phase a bucket prefix st1 s1 = (Inr st, s')"
      by auto
    let ?K = "(\<lambda>f. join_s3_key prefix (rel f)) ` set (iter_files fm ?r1 (exclude a))"
    from upload_loop_result [OF u] have
      k1: "local_key_set st1 = ?K"
      and n1: "uploaded st1 + skipped st1 = length (iter_files fm ?r1 (exclude a))"
      by (simp_all add: init_state_def)
    from delete_phase_result [OF d] k1 n1 have
      k2: "local_key_set st = ?K"
      and n2: "uploaded st + skipped st = length (iter_files fm ?r1 (exclude a))"
      by simp_all
    have nk: "join_s3_key prefix (p_rel e) \<notin> local_key_set st"
      unfolding k2 using ex by (rule excluded_key_not_local)
    from sync_keys [OF r] have sub: "set (keys_of ''upload'' (actions st)) \<subseteq> local_key_set st"
      by blast
    have len: "length (iter_files fm ?r1 (exclude a)) =
        length (filter (\<lambda>p. \<not> p_is_dir p \<and> \<not> is_excluded fm (p_rel p) (exclude a)) (xs @ ys))"
      unfolding it by (simp add: iter_files_def iter_entries_length)
    from nk sub n2 len show ?thesis by auto
  qed
  from ex it sy ma run show ?thesis by blast
qed

theorem excluded_file_absent_witness:
  "glob_match ''b.log'' ''*.log'' \<and>
   main glob_match ex_args ex_root ex_store =
     main glob_match ex_args
       (ex_root\<lparr>rglob :=
          [\<lparr>p_path = ''/data/a.txt'', p_rel = ''a.txt'', p_is_dir = False, st_size = 100, st_mtime = 1000\<rparr>,
           \<lparr>p_path = ''/data/sub'', p_rel = ''sub'', p_is_dir = True, st_size = 0, st_mtime = 900\<rparr>]\<rparr>)
       ex_store \<and>
   fst (main glob_match ex_args ex_root ex_store) =
     (0, Some ([(''cmd'', JStr ''sync''), (''local_dir'', JStr ''/data''), (''bucket'', JStr ''bkt''),
                (''prefix'', JStr []), (''dry_run'', JBool False), (''uploaded'', JInt 0),
                (''skipped'', JInt 1), (''deleted'', JInt 1), (''total_actions'', JInt 1)],
               [[(''action'', JStr ''delete''), (''bucket'', JStr ''bkt''), (''key'', JStr ''old.txt''),
                 (''dry_run'', JBool False)]]))"
proof -
  let ?a = "\<lparr>p_path = ''/data/a.txt'', p_rel = ''a.txt'', p_is_dir = False, st_size = 100, st_mtime = 1000\<rparr>"
  let ?d = "\<lparr>p_path = ''/data/sub'', p_rel = ''sub'', p_is_dir = True, st_size = 0, st_mtime = 900\<rparr>"
  let ?e = "\<lparr>p_path = ''/data/b.log'', p_rel = ''b.log'', p_is_dir = False, st_size = 50, st_mtime = 2000\<rparr>"
  have g: "glob_match ''b.log'' ''*.log''" by simp
  then have h: "\<exists>pattern\<in>set (exclude ex_args). glob_match (p_rel ?e) pattern"
    by (simp add: ex_args_def)
  have r1: "ex_root\<lparr>rglob := [?a, ?d] @ ?e # []\<rparr> = ex_root" by (simp add: ex_root_def)
  have r2: "ex_root\<lparr>rglob := [?a, ?d] @ []\<rparr> = ex_root\<lparr>rglob := [?a, ?d]\<rparr>" by simp
  from h excluded_file_absent [where a = ex_args and fm = glob_match and e = ?e and root = ex_root
      and xs = "[?a, ?d]" and ys = "[]" and s = ex_store]
  have "main glob_match ex_args (ex_root\<lparr>rglob := [?a, ?d] @ ?e # []\<rparr>) ex_store =
        main glob_match ex_args (ex_root\<lparr>rglob := [?a, ?d] @ []\<rparr>) ex_store"
    by blast
  then have "main glob_match ex_args ex_root ex_store =
        main glob_match ex_args (ex_root\<lparr>rglob := [?a, ?d]\<rparr>) ex_store"
    unfolding r1 r2 .
  with g ex_main_live show ?thesis by (intro conjI)
qed

text \<open>
  C10. In a run that completes with deletion enabled, a remote object of the bucket
  whose key is the key of a local file matching an exclusion pattern is planned for
  deletion: the key is not in the locally-present key set, no upload action has it, and
  the delete action for it is among the actions of the run.
\<close>

theorem excluded_remote_deleted:
  assumes "sync fm a root s = (Inr (st, summ), s')"
    and "delete a"
    and "parse_s3_uri (s3_uri a) = Inr (bucket, prefix)"
    and "e \<in> set (rglob root)"
    and "is_excluded fm (p_rel e) (exclude a)"
    and "(bucket, join_s3_key prefix (p_rel e)) \<in> fst ` set (objects s)"
  shows "join_s3_key prefix (p_rel e) \<notin> local_key_set st \<and>
         join_s3_key prefix (p_rel e) \<notin> set (keys_of ''upload'' (actions st)) \<and>
         delete_action bucket (join_s3_key prefix (p_rel e)) (dry_run a) \<in> set (actions st) \<and>
         join_s3_key prefix (p_rel e) \<in> set (keys_of ''delete'' (actions st))"
proof -
  let ?k = "join_s3_key prefix (p_rel e)"
  let ?fs = "iter_files fm root (exclude a)"
  let ?K = "(\<lambda>f. join_s3_key prefix (rel f)) ` set ?fs"
  from sync_result [OF assms(1)] assms(3) obtain st1 s1 where
    u: "upload_loop a bucket prefix ?fs init_state s = (Inr st1, s1)"
    and d: "delete_phase a bucket prefix st1 s1 = (Inr st, s')"
    by auto
  from upload_loop_result [OF u] have k1: "local_key_set st1 = ?K"
    by (simp add: init_state_def)
  from delete_phase_result [OF d] assms(2) k1 have
    k2: "local_key_set st = ?K"
    and a2: "actions st = actions st1 @ map (\<lambda>k. delete_action bucket k (dry_run a))
               (filter (\<lambda>k. k \<notin> ?K) (keys_under s1 bucket (list_prefix_of prefix)))"
    by simp_all
  have nk: "?k \<notin> ?K" using assms(5) by (rule excluded_key_not_local)
  have dom: "fst ` set (objects s) \<subseteq> fst ` set (objects s1)"
    using upload_loop_dom [of s a bucket prefix ?fs init_state] u by simp
  have li: "?k \<in> set (keys_under s1 bucket (list_prefix_of prefix))"
    using assms(3) assms(6) dom by (rule excluded_key_listed)
  have c1: "?k \<notin> local_key_set st" unfolding k2 using nk .
  have c2: "?k \<notin> set (keys_of ''upload'' (actions st))"
    using sync_keys [OF assms(1)] c1 by blast
  have c3: "delete_action bucket ?k (dry_run a) \<in> set (actions st)"
    unfolding a2 using li nk by simp
  have c4: "?k \<in> set (keys_of ''delete'' (actions st))"
    using keys_of_mem [OF c3, of "''delete''"] by simp
  from c1 c2 c3 c4 show ?thesis by blast
qed

theorem excluded_remote_deleted_witness:
  "fst (sync glob_match ex_args ex_root ex_store_log) =
     Inr (\<lparr>actions = [delete_action ''bkt'' ''b.log'' False],
           uploaded = 0, skipped = 1, deleted = 1, local_key_set = {''a.txt''}\<rparr>,
          [(''cmd'', JStr ''sync''), (''local_dir'', JStr ''/data''), (''bucket'', JStr ''bkt''),
           (''prefix'', JStr []), (''dry_run'', JBool False), (''uploaded'', JInt 0),
           (''skipped'', JInt 1), (''deleted'', JInt 1), (''total_actions'', JInt 1)]) \<and>
   is_excluded glob_match ''b.log'' [''*.log''] \<and>
   ''b.log'' \<notin> {''a.txt''} \<and>
   delete_action ''bkt'' ''b.log'' False \<in> set [delete_action ''bkt'' ''b.log'' False] \<and>
   ''b.log'' \<in> set (keys_of ''delete'' [delete_action ''bkt'' ''b.log'' False])"
proof -
  define st where "st = \<lparr>actions = [delete_action ''bkt'' ''b.log'' False],
           uploaded = 0, skipped = 1, deleted = 1, local_key_set = {''a.txt''}\<rparr>"
  define summ where "summ = [(''cmd'', JStr ''sync''), (''local_dir'', JStr ''/data''), (''bucket'', JStr ''bkt''),
           (''prefix'', JStr []), (''dry_run'', JBool False), (''uploaded'', JInt 0),
           (''skipped'', JInt 1), (''deleted'', JInt 1), (''total_actions'', JInt (1::int))]"
  let ?e = "\<lparr>p_path = ''/data/b.log'', p_rel = ''b.log'', p_is_dir = False, st_size = 50, st_mtime = 2000\<rparr>"
  have e: "fst (sync glob_match ex_args ex_root ex_store_log) = Inr (st, summ)"
    unfolding st_def summ_def by (rule ex_sync_log)
  have r: "sync glob_match ex_args ex_root ex_store_log =
      (Inr (st, summ), snd (sync glob_match ex_args ex_root ex_store_log))"
    by (subst e [symmetric]) (rule prod.collapse [symmetric])
  have d: "delete ex_args" by (simp add: ex_args_def)
  have p: "parse_s3_uri (s3_uri ex_args) = Inr (''bkt'', [])" by (simp add: ex_args_def ex_parse)
  have m: "?e \<in> set (rglob ex_root)" by (simp add: ex_root_def)
  have x: "is_excluded glob_match (p_rel ?e) (exclude ex_args)" by (simp add: ex_args_def)
  have o: "(''bkt'', join_s3_key [] (p_rel ?e)) \<in> fst ` set (objects ex_store_log)"
    by (simp add: ex_join ex_store_log_def)
  note th = excluded_remote_deleted [OF r d p m x o]
  have a: "actions st = [delete_action ''bkt'' ''b.log'' False]"
    and k: "local_key_set st = {''a.txt''}"
    by (simp_all add: st_def)
  have dr: "dry_run ex_args = False" by (simp add: ex_args_def)
  have j: "join_s3_key [] (p_rel ?e) = ''b.log''" by (simp add: ex_join)
  from th have "''b.log'' \<notin> {''a.txt''} \<and>
     delete_action ''bkt'' ''b.log'' False \<in> set [delete_action ''bkt'' ''b.log'' False] \<and>
     ''b.log'' \<in> set (keys_of ''delete'' [delete_action ''bkt'' ''b.log'' False])"
    unfolding a k dr j by blast
  moreover have "is_excluded glob_match ''b.log'' [''*.log'']" by simp
  ultimately show ?thesis using ex_sync_log by (intro conjI) blast+
qed



text \<open>
  C9. If the local root does not exist or is not a directory, the \<open>sync\<close> branch
  raises \<open>ValueError\<close> with the message \<open>local_dir not found or not a directory\<close>
  followed by the root, before it issues any call; \<open>main\<close> returns the exit code
  \<open>EXIT_ERROR\<close>, which is 2, having issued the credential check alone, so no object
  of the store is changed and no upload or delete call is made.
\<close>

theorem missing_root_value_error:
  assumes "\<not> root_exists root \<or> \<not> root_is_dir root"
  shows "sync fm a root s =
           (Inl (ValueError (''local_dir not found or not a directory: '' @ root_path root)), s) \<and>
         fst (main fm a root s) = (EXIT_ERROR, None) \<and> EXIT_ERROR = 2 \<and>
         snd (main fm a root s) = issue GetCallerIdentity s \<and>
         objects (snd (main fm a root s)) = objects s \<and>
         mutations (snd (main fm a root s)) = mutations s"
proof -
  have sy: "sync fm a root t =
      (Inl (ValueError (''local_dir not found or not a directory: '' @ root_path root)), t)" for t
    using assms by (auto simp: sync_def)
  have m1: "fst (main fm a root s) = (EXIT_ERROR, None)"
    by (rule main_error) (simp add: sy)
  have m2: "snd (main fm a root s) = issue GetCallerIdentity s"
    by (rule main_error_state) (simp add: sy)
  have m3: "objects (snd (main fm a root s)) = objects s \<and>
         mutations (snd (main fm a root s)) = mutations s"
    unfolding m2 by (simp add: issue_frame)
  from sy [of s] m1 m2 m3 show ?thesis by (simp add: EXIT_ERROR_def)
qed

theorem missing_root_value_error_witness:
  "sync glob_match ex_args (ex_root\<lparr>root_is_dir := False\<rparr>) ex_store =
     (Inl (ValueError ''local_dir not found or not a directory: /data''), ex_store) \<and>
   fst (main glob_match ex_args (ex_root\<lparr>root_is_dir := False\<rparr>) ex_store) = (2, None) \<and>
   objects (snd (main glob_match ex_args (ex_root\<lparr>root_is_dir := False\<rparr>) ex_store)) = objects ex_store \<and>
   mutations (snd (main glob_match ex_args (ex_root\<lparr>root_is_dir := False\<rparr>) ex_store)) = []"
proof -
  have h: "\<not> root_exists (ex_root\<lparr>root_is_dir := False\<rparr>) \<or> \<not> root_is_dir (ex_root\<lparr>root_is_dir := False\<rparr>)"
    by simp
  have p: "root_path (ex_root\<lparr>root_is_dir := False\<rparr>) = ''/data''" by (simp add: ex_root_def)
  have m: "mutations ex_store = []" by (simp add: mutations_def ex_store_def)
  show ?thesis
    using missing_root_value_error [OF h, of glob_match ex_args ex_store]
    unfolding p m EXIT_ERROR_def append.simps by blast
qed

text \<open>
  The exception of a missing root is a \<open>ValueError\<close>, which is not of the class
  \<open>NotADirectoryError\<close>: the example root, taken not to exist.
\<close>

theorem missing_root_not_a_directory_error_counterexample:
  "\<not> root_exists (ex_root\<lparr>root_exists := False\<rparr>) \<and>
   sync glob_match ex_args (ex_root\<lparr>root_exists := False\<rparr>) ex_store =
     (Inl (ValueError ''local_dir not found or not a directory: /data''), ex_store) \<and>
   \<not> is_NotADirectoryError (ValueError ''local_dir not found or not a directory: /data'')"
  by (simp add: sync_def ex_root_def)

end
